theory Spec2Isabelle
  imports Main "HOL-Library.AList" "HOL-Library.Multiset" "HOL-Library.Sublist"
begin

section \<open>JavaScript values\<close>

text \<open>
  The Babel syntax tree, the parsed configuration and every other value the plugin handles
  is a plain JavaScript value. Objects are association lists from property names to values
  (a JavaScript object has each key once: \<open>wf_js\<close> below), arrays are lists. Numbers are
  integers (positions, line numbers), strings are lists of 8-bit characters.
\<close>

datatype jsval =
    JUndef
  | JNull
  | JBool bool
  | JNum int
  | JStr string
  | JArr "jsval list"
  | JObj "(string \<times> jsval) list"

datatype error = TypeError | EngineFailure | SyntaxError | IOError

text \<open>A property selector: \<open>x.k\<close> is \<open>Fld k\<close>, \<open>x[i]\<close> is \<open>Idx i\<close>.\<close>

datatype sel = Fld string | Idx nat

fun digits :: "nat \<Rightarrow> string" where
  "digits n = (if n < 10 then [''0123456789'' ! n]
               else digits (n div 10) @ [''0123456789'' ! (n mod 10)])"

declare digits.simps [simp del]

text \<open>\<open>if (v)\<close>: JavaScript truthiness.\<close>

fun truthy :: "jsval \<Rightarrow> bool" where
  "truthy JUndef = False"
| "truthy JNull = False"
| "truthy (JBool b) = b"
| "truthy (JNum n) = (n \<noteq> 0)"
| "truthy (JStr s) = (s \<noteq> [])"
| "truthy (JArr xs) = True"
| "truthy (JObj fs) = True"

text \<open>\<open>typeof v === 'object'\<close> for a truthy \<open>v\<close>: objects and arrays.\<close>

fun is_object :: "jsval \<Rightarrow> bool" where
  "is_object (JArr xs) = True"
| "is_object (JObj fs) = True"
| "is_object v = False"

fun is_array :: "jsval \<Rightarrow> bool" where
  "is_array (JArr xs) = True"
| "is_array v = False"

text \<open>
  Reading one property. On \<open>undefined\<close> and \<open>null\<close> the read throws a TypeError; an
  object answers with the value stored under the key, or \<open>undefined\<close>; an array answers
  to an index; a string answers to an index with the one-character string there. For the
  property names this program reads (\<open>type\<close>, \<open>key\<close>, \<open>value\<close>, \<open>name\<close>,
  \<open>properties\<close>, \<open>expressions\<close>, \<open>quasis\<close>, \<open>consequent\<close>, \<open>alternate\<close>, \<open>cooked\<close>,
  \<open>body\<close>) every other read is \<open>undefined\<close>.
\<close>

fun getprop :: "jsval \<Rightarrow> sel \<Rightarrow> error + jsval" where
  "getprop JUndef k = Inl TypeError"
| "getprop JNull k = Inl TypeError"
| "getprop (JObj fs) (Fld k) = Inr (case map_of fs k of None \<Rightarrow> JUndef | Some v \<Rightarrow> v)"
| "getprop (JObj fs) (Idx i) = Inr (case map_of fs (digits i) of None \<Rightarrow> JUndef | Some v \<Rightarrow> v)"
| "getprop (JArr xs) (Idx i) = Inr (if i < length xs then xs ! i else JUndef)"
| "getprop (JStr s) (Idx i) = Inr (if i < length s then JStr [s ! i] else JUndef)"
| "getprop v k = Inr JUndef"

text \<open>A chain of reads \<open>x.a.b[0]\<close>; the first read that throws ends it.\<close>

fun getpath :: "jsval \<Rightarrow> sel list \<Rightarrow> error + jsval" where
  "getpath v [] = Inr v"
| "getpath v (k # ks) = (case getprop v k of Inl e \<Rightarrow> Inl e | Inr w \<Rightarrow> getpath w ks)"

text \<open>
  The node a path of the tree leads to (the reference the JavaScript holds), and the tree
  after the node at a path has been replaced: a write through a reference into the tree.
  A write to a slot that does not exist leaves the tree as it is; the program writes only
  to slots it has read.
\<close>

definition get :: "jsval \<Rightarrow> sel list \<Rightarrow> jsval" where
  "get v p = (case getpath v p of Inl e \<Rightarrow> JUndef | Inr w \<Rightarrow> w)"

fun put :: "jsval \<Rightarrow> sel list \<Rightarrow> jsval \<Rightarrow> jsval" where
  "put v [] w = w"
| "put (JObj fs) (Fld k # ks) w =
     (case map_of fs k of None \<Rightarrow> JObj fs
      | Some u \<Rightarrow> JObj (AList.update k (put u ks w) fs))"
| "put (JObj fs) (Idx i # ks) w =
     (case map_of fs (digits i) of None \<Rightarrow> JObj fs
      | Some u \<Rightarrow> JObj (AList.update (digits i) (put u ks w) fs))"
| "put (JArr xs) (Idx i # ks) w =
     (if i < length xs then JArr (xs[i := put (xs ! i) ks w]) else JArr xs)"
| "put v (k # ks) w = v"

text \<open>\<open>for (const x of v)\<close>: arrays and strings are iterable, nothing else here is.\<close>

fun iterate :: "jsval \<Rightarrow> error + jsval list" where
  "iterate (JArr xs) = Inr xs"
| "iterate (JStr s) = Inr (map (\<lambda>c. JStr [c]) s)"
| "iterate v = Inl TypeError"

text \<open>\<open>v.replaceAll("\"", "'")\<close>: only a string has the method.\<close>

definition single_quotes :: "string \<Rightarrow> string" where
  "single_quotes s = map (\<lambda>c. if c = CHR 0x22 then CHR 0x27 else c) s"

fun replaceAll_quotes :: "jsval \<Rightarrow> error + string" where
  "replaceAll_quotes (JStr s) = Inr (single_quotes s)"
| "replaceAll_quotes v = Inl TypeError"

subsection \<open>JSON.stringify\<close>

fun json_escape :: "char \<Rightarrow> string" where
  "json_escape c =
     (if c = CHR 0x22 then [CHR 0x5C, CHR 0x22]
      else if c = CHR 0x5C then [CHR 0x5C, CHR 0x5C]
      else if c = CHR 0x08 then [CHR 0x5C, CHR ''b'']
      else if c = CHR 0x0C then [CHR 0x5C, CHR ''f'']
      else if c = CHR 0x0A then [CHR 0x5C, CHR ''n'']
      else if c = CHR 0x0D then [CHR 0x5C, CHR ''r'']
      else if c = CHR 0x09 then [CHR 0x5C, CHR ''t'']
      else if (of_char c :: nat) < 32
        then [CHR 0x5C, CHR ''u'', CHR ''0'', CHR ''0'',
              ''0123456789abcdef'' ! (of_char c div 16), ''0123456789abcdef'' ! (of_char c mod 16)]
      else [c])"

definition json_quote :: "string \<Rightarrow> string" where
  "json_quote s = [CHR 0x22] @ concat (map json_escape s) @ [CHR 0x22]"

text \<open>
  The text of a number. The numbers of the model are the integers a syntax tree holds
  (positions, lines, columns, integer literals): JavaScript prints an integer of magnitude
  up to \<open>2^53\<close> with all its digits, as \<open>show_int\<close> does. Larger numbers, which JavaScript
  rounds and from \<open>10^21\<close> on prints with an exponent, and fractions are outside the model.
\<close>

definition show_int :: "int \<Rightarrow> string" where
  "show_int i = (if i < 0 then CHR ''-'' # digits (nat (- i)) else digits (nat i))"

fun intercalate :: "string \<Rightarrow> string list \<Rightarrow> string" where
  "intercalate sep [] = []"
| "intercalate sep [x] = x"
| "intercalate sep (x # y # ys) = x @ sep @ intercalate sep (y # ys)"

text \<open>
  \<open>JSON.stringify(v)\<close> with no indentation. \<open>None\<close> is the result \<open>undefined\<close> (for
  \<open>undefined\<close> itself); inside an array \<open>undefined\<close> is written \<open>null\<close>, inside an
  object the property is left out.
\<close>

fun json_stringify :: "jsval \<Rightarrow> string option" where
  "json_stringify JUndef = None"
| "json_stringify JNull = Some ''null''"
| "json_stringify (JBool b) = Some (if b then ''true'' else ''false'')"
| "json_stringify (JNum n) = Some (show_int n)"
| "json_stringify (JStr s) = Some (json_quote s)"
| "json_stringify (JArr xs) =
     Some (''['' @ intercalate '','' (map (\<lambda>x. case json_stringify x of None \<Rightarrow> ''null'' | Some t \<Rightarrow> t) xs) @ '']'')"
| "json_stringify (JObj fs) =
     Some (''{'' @ intercalate '',''
        (concat (map (\<lambda>kv. case json_stringify (snd kv) of None \<Rightarrow> []
                            | Some t \<Rightarrow> [json_quote (fst kv) @ '':'' @ t]) fs)) @ ''}'')"


text \<open>\<open>s.replace(/\s+/g, "")\<close>: the characters the class \<open>\s\<close> holds among the 8-bit ones.\<close>

definition is_space :: "char \<Rightarrow> bool" where
  "is_space c = (c \<in> set [CHR 0x09, CHR 0x0A, CHR 0x0B, CHR 0x0C, CHR 0x0D, CHR 0x20, CHR 0xA0])"

definition strip_spaces :: "string \<Rightarrow> string" where
  "strip_spaces s = filter (\<lambda>c. \<not> is_space c) s"

section \<open>The style engine and the property transformer (alchemy.js)\<close>

text \<open>
  \<open>alchemyProcessing\<close> is native code outside the repository's JavaScript. A call carries
  its five arguments. The engine is a parameter: from the calls made so far and the
  present call it either throws or returns the class name, so an engine with a state of
  its own is covered.
\<close>

datatype call = Call (arg_name: jsval) (arg_value: string) (arg_modular: jsval)
  (arg_path: string) (arg_pseudo: jsval)

type_synonym engine = "call list \<Rightarrow> call \<Rightarrow> error + string"

text \<open>\<open>filePath || ""\<close>\<close>

definition or_empty :: "string option \<Rightarrow> string" where
  "or_empty filePath = (case filePath of None \<Rightarrow> [] | Some s \<Rightarrow> s)"

text \<open>\<open>t.isIdentifier(node)\<close>, \<open>t.isObjectExpression(node)\<close>: a node of that \<open>type\<close>.\<close>

definition isType :: "string \<Rightarrow> jsval \<Rightarrow> bool" where
  "isType T node = (case node of JObj fs \<Rightarrow> map_of fs ''type'' = Some (JStr T) | _ \<Rightarrow> False)"

text \<open>
  The arguments of one engine call, read left to right:
  \<open>(property.key.name, JSON.stringify(<string>.replaceAll("\"", "'")), isModular, filePath || "", pseudo)\<close>,
  the string being the one at \<open>str_path\<close> below the property.
\<close>

definition engine_args ::
  "jsval \<Rightarrow> string option \<Rightarrow> jsval \<Rightarrow> sel list \<Rightarrow> jsval \<Rightarrow> error + call" where
  "engine_args isModular filePath pseudo str_path property =
     (case getpath property [Fld ''key'', Fld ''name''] of Inl e \<Rightarrow> Inl e
      | Inr n \<Rightarrow>
     (case getpath property str_path of Inl e \<Rightarrow> Inl e
      | Inr s \<Rightarrow>
     (case replaceAll_quotes s of Inl e \<Rightarrow> Inl e
      | Inr r \<Rightarrow> Inr (Call n (json_quote r) isModular (or_empty filePath) pseudo))))"

text \<open>
  One engine call on the string at \<open>str_path\<close> and the assignment that follows it:
  \<open>const className = alchemyProcessing(...); if (className) <string> = className;\<close>.
  The result is the property after it, the calls made, and the exception thrown if any.
\<close>

definition string_step ::
  "engine \<Rightarrow> jsval \<Rightarrow> string option \<Rightarrow> jsval \<Rightarrow> sel list \<Rightarrow> jsval \<Rightarrow> call list
     \<Rightarrow> jsval \<times> call list \<times> error option" where
  "string_step eng isModular filePath pseudo str_path property log =
     (case engine_args isModular filePath pseudo str_path property of
        Inl e \<Rightarrow> (property, log, Some e)
      | Inr c \<Rightarrow>
         (case eng log c of
            Inl e \<Rightarrow> (property, log @ [c], Some e)
          | Inr className \<Rightarrow>
              (if className \<noteq> [] then put property str_path (JStr className) else property,
               log @ [c], None)))"

definition consequent_path :: "sel list" where
  "consequent_path = [Fld ''value'', Fld ''expressions'', Idx 0, Fld ''consequent'', Fld ''value'']"

definition alternate_path :: "sel list" where
  "alternate_path = [Fld ''value'', Fld ''expressions'', Idx 0, Fld ''alternate'', Fld ''value'']"

definition cooked_path :: "sel list" where
  "cooked_path = [Fld ''value'', Fld ''quasis'', Idx 0, Fld ''value'', Fld ''cooked'']"

text \<open>Where the condition of the ternary stands: \<open>property.value.expressions[0].test\<close>.\<close>

definition test_path :: "sel list" where
  "test_path = [Fld ''value'', Fld ''expressions'', Idx 0, Fld ''test'']"

text \<open>The branch of \<open>transformTemplateLiteral\<close> for a first expression: both calls, then both assignments.\<close>

definition ternary_step ::
  "engine \<Rightarrow> jsval \<Rightarrow> string option \<Rightarrow> jsval \<Rightarrow> jsval \<Rightarrow> call list
     \<Rightarrow> jsval \<times> call list \<times> error option" where
  "ternary_step eng isModular filePath pseudo property log =
     (case engine_args isModular filePath pseudo consequent_path property of
        Inl e \<Rightarrow> (property, log, Some e)
      | Inr c1 \<Rightarrow>
     (case eng log c1 of
        Inl e \<Rightarrow> (property, log @ [c1], Some e)
      | Inr classNameConsequent \<Rightarrow>
     (case engine_args isModular filePath pseudo alternate_path property of
        Inl e \<Rightarrow> (property, log @ [c1], Some e)
      | Inr c2 \<Rightarrow>
     (case eng (log @ [c1]) c2 of
        Inl e \<Rightarrow> (property, log @ [c1, c2], Some e)
      | Inr classNameAlternate \<Rightarrow>
          (let p1 = (if classNameConsequent \<noteq> []
                     then put property consequent_path (JStr classNameConsequent) else property);
               p2 = (if classNameAlternate \<noteq> []
                     then put p1 alternate_path (JStr classNameAlternate) else p1)
           in (p2, log @ [c1, c2], None))))))"

definition transformTemplateLiteral ::
  "engine \<Rightarrow> jsval \<Rightarrow> string option \<Rightarrow> jsval \<Rightarrow> jsval \<Rightarrow> call list
     \<Rightarrow> jsval \<times> call list \<times> error option" where
  "transformTemplateLiteral eng isModular filePath currentPseudo property log =
     (case getpath property [Fld ''value'', Fld ''type''] of
        Inl e \<Rightarrow> (property, log, Some e)
      | Inr ty \<Rightarrow>
          if ty \<noteq> JStr ''TemplateLiteral'' then (property, log, None)
          else
            (case getpath property [Fld ''value'', Fld ''expressions'', Idx 0] of
               Inl e \<Rightarrow> (property, log, Some e)
             | Inr condExpr \<Rightarrow>
                 if truthy condExpr
                 then ternary_step eng isModular filePath currentPseudo property log
                 else
                   (case getpath property [Fld ''value'', Fld ''quasis'', Idx 0] of
                      Inl e \<Rightarrow> (property, log, Some e)
                    | Inr quasis \<Rightarrow>
                        if truthy quasis
                        then string_step eng isModular filePath currentPseudo cooked_path property log
                        else (property, log, None))))"

text \<open>
  A \<open>for ... of\<close> loop over properties that are changed in place: the first exception
  leaves the loop, and what was assigned before it stays assigned.
\<close>

fun loop_props ::
  "(jsval \<Rightarrow> call list \<Rightarrow> jsval \<times> call list \<times> error option) \<Rightarrow> jsval list \<Rightarrow> call list
     \<Rightarrow> jsval list \<times> call list \<times> error option" where
  "loop_props f [] log = ([], log, None)"
| "loop_props f (p # ps) log =
     (case f p log of
        (p', log', Some e) \<Rightarrow> (p' # ps, log', Some e)
      | (p', log', None) \<Rightarrow>
          (case loop_props f ps log' of (ps', log'', r) \<Rightarrow> (p' # ps', log'', r)))"

text \<open>The array after the loop: the same array object with its elements changed in place;
  the characters of a string are values and stay as they are.\<close>

definition loop_over ::
  "(jsval \<Rightarrow> call list \<Rightarrow> jsval \<times> call list \<times> error option) \<Rightarrow> jsval \<Rightarrow> call list
     \<Rightarrow> jsval \<times> call list \<times> error option" where
  "loop_over f props log =
     (case iterate props of
        Inl e \<Rightarrow> (props, log, Some e)
      | Inr ps \<Rightarrow>
          (case loop_props f ps log of
             (ps', log', r) \<Rightarrow> ((case props of JArr xs \<Rightarrow> JArr ps' | _ \<Rightarrow> props), log', r)))"

text \<open>The body of the inner loop of \<open>generatesAlchemy\<close> (lines 88 to 103).\<close>

definition nested_step ::
  "engine \<Rightarrow> jsval \<Rightarrow> string option \<Rightarrow> jsval \<Rightarrow> jsval \<Rightarrow> call list
     \<Rightarrow> jsval \<times> call list \<times> error option" where
  "nested_step eng isModular filePath pseudo nestedProperty log =
     (case getpath nestedProperty [Fld ''value'', Fld ''type''] of
        Inl e \<Rightarrow> (nestedProperty, log, Some e)
      | Inr ty \<Rightarrow>
          if ty = JStr ''StringLiteral''
          then string_step eng isModular filePath pseudo [Fld ''value'', Fld ''value''] nestedProperty log
          else transformTemplateLiteral eng isModular filePath pseudo nestedProperty log)"

text \<open>The body of the outer loop of \<open>generatesAlchemy\<close> (lines 69 to 107).\<close>

definition property_step ::
  "engine \<Rightarrow> jsval \<Rightarrow> string option \<Rightarrow> jsval \<Rightarrow> call list
     \<Rightarrow> jsval \<times> call list \<times> error option" where
  "property_step eng isModular filePath property log =
     (case getprop property (Fld ''key'') of
        Inl e \<Rightarrow> (property, log, Some e)
      | Inr k \<Rightarrow>
          if \<not> isType ''Identifier'' k then (property, log, None)
          else
            (case getpath property [Fld ''value'', Fld ''type''] of
               Inl e \<Rightarrow> (property, log, Some e)
             | Inr ty \<Rightarrow>
                 if ty = JStr ''StringLiteral''
                 then string_step eng isModular filePath (JStr []) [Fld ''value'', Fld ''value''] property log
                 else if ty = JStr ''ObjectExpression''
                 then
                   (case getpath property [Fld ''value'', Fld ''properties''] of
                      Inl e \<Rightarrow> (property, log, Some e)
                    | Inr props \<Rightarrow>
                        (case loop_over (nested_step eng isModular filePath (get k [Fld ''name''])) props log of
                           (props', log', r) \<Rightarrow>
                             (put property [Fld ''value'', Fld ''properties''] props', log', r)))
                 else transformTemplateLiteral eng isModular filePath (JStr []) property log))"

text \<open>
  \<open>generatesAlchemy(t, node, isModular, filePath)\<close>: the node after the call, the engine
  calls made, and what \<open>console.error\<close> has printed. The one \<open>try\<close> block holds the whole
  loop, so an exception ends the loop and is printed.
\<close>

definition generatesAlchemy ::
  "engine \<Rightarrow> jsval \<Rightarrow> string option \<Rightarrow> jsval \<Rightarrow> call list \<times> error list
     \<Rightarrow> jsval \<times> call list \<times> error list" where
  "generatesAlchemy eng isModular filePath node st =
     (if \<not> isType ''ObjectExpression'' node then (node, fst st, snd st)
      else
        (case loop_over (property_step eng isModular filePath) (get node [Fld ''properties'']) (fst st) of
           (props', log', r) \<Rightarrow>
             (put node [Fld ''properties''] props', log',
              snd st @ (case r of None \<Rightarrow> [] | Some e \<Rightarrow> [e]))))"

text \<open>
  What the transformer never changes. Every assignment it makes puts a string where a
  string was, under the key \<open>value\<close> or \<open>cooked\<close>; \<open>skeleton\<close> forgets exactly those
  strings (\<open>e\<close> tells whether the value stands under such a key).
\<close>

definition erasable :: "string \<Rightarrow> bool" where
  "erasable k = (k = ''value'' \<or> k = ''cooked'')"

fun skeleton :: "bool \<Rightarrow> jsval \<Rightarrow> jsval" where
  "skeleton e (JStr s) = (if e then JStr [] else JStr s)"
| "skeleton e (JArr xs) = JArr (map (skeleton False) xs)"
| "skeleton e (JObj fs) = JObj (map (\<lambda>kv. (fst kv, skeleton (erasable (fst kv)) (snd kv))) fs)"
| "skeleton e v = v"

section \<open>The tree walker (alchemy.js, walkThroughOutAst)\<close>

text \<open>\<open>for (const nestedProperty in node)\<close>: the keys of an object, the indices of an array.\<close>

fun js_keys :: "jsval \<Rightarrow> sel list" where
  "js_keys (JObj fs) = map (\<lambda>kv. Fld (fst kv)) fs"
| "js_keys (JArr xs) = map Idx [0..<length xs]"
| "js_keys (JStr s) = map Idx [0..<length s]"
| "js_keys v = []"

text \<open>The test of line 139 to 143, and the children it lets onto the stack, in the order
  of the \<open>for ... in\<close> loop.\<close>

definition pushed :: "jsval \<Rightarrow> sel \<Rightarrow> bool" where
  "pushed node k =
     (let child = get node [k] in
      truthy child \<and> is_object child \<and> \<not> (get node [Fld ''type''] = JStr ''ObjectExpression'' \<and> is_array child))"

definition kids :: "jsval \<Rightarrow> sel list" where
  "kids node = filter (pushed node) (js_keys node)"

text \<open>
  The state of the walk: the tree under the root (changed in place by the transformer),
  the engine calls made, what \<open>console.error\<close> printed, and the nodes popped so far, each
  named by its path from the root, in the order \<open>generatesAlchemy\<close> was called on them.
\<close>

record wstate =
  root :: jsval
  w_calls :: "call list"
  w_errors :: "error list"
  visited :: "sel list list"

text \<open>One turn of the loop on the node just popped: \<open>generatesAlchemy(t, node, isModular, filePath)\<close>.\<close>

definition visit :: "engine \<Rightarrow> jsval \<Rightarrow> string option \<Rightarrow> sel list \<Rightarrow> wstate \<Rightarrow> wstate" where
  "visit eng isModular filePath p w =
     (case generatesAlchemy eng isModular filePath (get (root w) p) (w_calls w, w_errors w) of
        (node', log', errs') \<Rightarrow>
          \<lparr>root = put (root w) p node', w_calls = log', w_errors = errs', visited = visited w @ [p]\<rparr>)"

text \<open>
  The \<open>while (stack.length > 0)\<close> loop. The stack holds references to nodes, here their
  paths; its top is the head of the list, so the children pushed in order come off in
  reverse order.
\<close>

function walk_loop ::
  "engine \<Rightarrow> jsval \<Rightarrow> string option \<Rightarrow> wstate \<Rightarrow> sel list list \<Rightarrow> wstate" where
  "walk_loop eng isModular filePath w [] = w"
| "walk_loop eng isModular filePath w (p # stack) =
     (let w' = visit eng isModular filePath p w
      in walk_loop eng isModular filePath w'
           (rev (map (\<lambda>k. p @ [k]) (kids (get (root w') p))) @ stack))"
  by pat_completeness auto

definition walkThroughOutAst ::
  "engine \<Rightarrow> jsval \<Rightarrow> string option \<Rightarrow> jsval \<Rightarrow> call list \<times> error list \<Rightarrow> wstate" where
  "walkThroughOutAst eng isModular filePath rootNode st =
     walk_loop eng isModular filePath
       \<lparr>root = rootNode, w_calls = fst st, w_errors = snd st, visited = []\<rparr> [[]]"


section \<open>The Babel plugin (alchemy.js, module.exports)\<close>

text \<open>\<open>generatesHashingHex\<close> is native code as well: a parameter \<open>hash\<close>. The fingerprint of a
  callback body is \<open>generatesHashingHex(JSON.stringify(body).replace(/\s+/g, ""), true, false)\<close>;
  \<open>JSON.stringify(undefined)\<close> is \<open>undefined\<close>, which has no \<open>replace\<close>.\<close>

definition fingerprint :: "(string \<Rightarrow> bool \<Rightarrow> bool \<Rightarrow> string) \<Rightarrow> jsval \<Rightarrow> error + string" where
  "fingerprint hash body =
     (case json_stringify body of
        None \<Rightarrow> Inl TypeError
      | Some txt \<Rightarrow> Inr (hash (strip_spaces txt) True False))"

text \<open>\<open>s.includes(x)\<close> on strings.\<close>

fun starts_with :: "string \<Rightarrow> string \<Rightarrow> bool" where
  "starts_with [] s = True"
| "starts_with (x # xs) [] = False"
| "starts_with (x # xs) (c # s) = (x = c \<and> starts_with xs s)"

fun str_includes :: "string \<Rightarrow> string \<Rightarrow> bool" where
  "str_includes [] x = (x = [])"
| "str_includes (c # s) x = (starts_with x (c # s) \<or> str_includes s x)"

text \<open>
  \<open>exclude.some(__path => filePath?.includes(resolve(__path)))\<close>. \<open>resolve\<close> is Node's
  \<open>path.resolve\<close>, a parameter; it throws a TypeError on anything but a string. With no
  file name the optional chain is \<open>undefined\<close> before \<open>resolve\<close> is called.
\<close>

fun exclude_some :: "(string \<Rightarrow> string) \<Rightarrow> string option \<Rightarrow> jsval list \<Rightarrow> error + bool" where
  "exclude_some resolve filePath [] = Inr False"
| "exclude_some resolve None (e # es) = exclude_some resolve None es"
| "exclude_some resolve (Some f) (JStr s # es) =
     (if str_includes f (resolve s) then Inr True else exclude_some resolve (Some f) es)"
| "exclude_some resolve (Some f) (e # es) = Inl TypeError"

definition excludePath :: "(string \<Rightarrow> string) \<Rightarrow> jsval \<Rightarrow> string option \<Rightarrow> error + bool" where
  "excludePath resolve exclude filePath =
     (case exclude of JArr es \<Rightarrow> exclude_some resolve filePath es | _ \<Rightarrow> Inl TypeError)"

text \<open>
  The state of the module: \<open>usedObjects\<close>, \<open>transformedNodes\<close>, and with them the objects
  that references lead to, the engine calls made and what \<open>console.error\<close> printed.
  A callback body is an object of the heap, named by its address: the visitor replaces
  the reference \<open>callback.body\<close>, and \<open>transformedNodes\<close> holds references.
\<close>

record gstate =
  usedObjects :: "string list"
  transformedNodes :: "(string \<times> nat) list"
  heap :: "jsval list"
  calls :: "call list"
  errors :: "error list"

definition deref :: "gstate \<Rightarrow> nat \<Rightarrow> jsval" where
  "deref g a = (if a < length (heap g) then heap g ! a else JUndef)"

text \<open>\<open>cloneDeep(x)\<close>: a new object, equal to the one copied down to its leaves.\<close>

definition cloneDeep :: "nat \<Rightarrow> gstate \<Rightarrow> nat \<times> gstate" where
  "cloneDeep a g = (length (heap g), g\<lparr>heap := heap g @ [deref g a]\<rparr>)"

text \<open>The first argument of the call: its \<open>type\<close> and the reference \<open>body\<close>
  (\<open>None\<close>: it has none).\<close>

datatype fn_arg = FnArg (fn_type: jsval) (fn_body: "nat option")

text \<open>What the visitor reads of \<open>(path, state)\<close>: \<open>state.filename\<close>, \<open>path.node.callee\<close>,
  \<open>path.node.arguments[0]\<close>.\<close>

record call_site =
  filename :: "string option"
  callee :: jsval
  callback :: "fn_arg option"

text \<open>Lines 203 to 207 and 214 to 218: walk the body, keep a copy, remember the hash.\<close>

definition transform_and_save ::
  "engine \<Rightarrow> jsval \<Rightarrow> string option \<Rightarrow> string \<Rightarrow> nat \<Rightarrow> gstate \<Rightarrow> gstate" where
  "transform_and_save eng isModular filePath hashedNode a g =
     (let w = walkThroughOutAst eng isModular filePath (deref g a) (calls g, errors g);
          g1 = g\<lparr>heap := (heap g)[a := root w], calls := w_calls w, errors := w_errors w\<rparr>;
          (c, g2) = cloneDeep a g1
      in g2\<lparr>transformedNodes := AList.update hashedNode c (transformedNodes g2),
             usedObjects := usedObjects g2 @ [hashedNode]\<rparr>)"

text \<open>
  The visitor \<open>CallExpression(path, state)\<close>. \<open>cfg\<close> is what \<open>parseConfig()\<close> returned when
  the plugin was made; \<open>exclude\<close> and \<open>module\<close> are read from it by destructuring.
\<close>

definition CallExpression ::
  "(string \<Rightarrow> bool \<Rightarrow> bool \<Rightarrow> string) \<Rightarrow> (string \<Rightarrow> string) \<Rightarrow> engine \<Rightarrow> jsval
     \<Rightarrow> call_site \<Rightarrow> gstate \<Rightarrow> call_site \<times> gstate" where
  "CallExpression hash resolve eng cfg site g =
     (case excludePath resolve (get cfg [Fld ''exclude'']) (filename site) of
        Inl e \<Rightarrow> (site, g\<lparr>errors := errors g @ [e]\<rparr>)
      | Inr True \<Rightarrow> (site, g)
      | Inr False \<Rightarrow>
          if \<not> (isType ''Identifier'' (callee site)
                \<and> get (callee site) [Fld ''name''] = JStr ''craftingStyles'') then (site, g)
          else
            (case callback site of
               None \<Rightarrow> (site, g)
             | Some cb \<Rightarrow>
                 if fn_type cb = JStr ''FunctionExpression''
                    \<or> fn_type cb = JStr ''ArrowFunctionExpression''
                 then
                   (case fn_body cb of
                      None \<Rightarrow> (site, g\<lparr>errors := errors g @ [TypeError]\<rparr>)
                    | Some a \<Rightarrow>
                        (case fingerprint hash (deref g a) of
                           Inl e \<Rightarrow> (site, g\<lparr>errors := errors g @ [e]\<rparr>)
                         | Inr hashedNode \<Rightarrow>
                             if hashedNode \<in> set (usedObjects g)
                             then
                               (case map_of (transformedNodes g) hashedNode of
                                  None \<Rightarrow>
                                    (site, transform_and_save eng (get cfg [Fld ''module''])
                                             (filename site) hashedNode a g)
                                | Some collectedNode \<Rightarrow>
                                    (case cloneDeep collectedNode g of
                                       (c, g') \<Rightarrow>
                                         (site\<lparr>callback := Some (FnArg (fn_type cb) (Some c))\<rparr>, g')))
                             else
                               (site, transform_and_save eng (get cfg [Fld ''module''])
                                        (filename site) hashedNode a g)))
                 else (site, g)))"

text \<open>
  A run of the process: Babel calls the visitor on one call expression after the other.
  Each call expression comes from the parser, which has made its callback body a new
  object (\<open>parse_site\<close>); the run returns the call sites as the visitor left them.
\<close>

record parsed_site =
  src_filename :: "string option"
  src_callee :: jsval
  src_callback :: "(jsval \<times> jsval) option"

definition parse_site :: "parsed_site \<Rightarrow> gstate \<Rightarrow> call_site \<times> gstate" where
  "parse_site s g =
     (case src_callback s of
        None \<Rightarrow> (\<lparr>filename = src_filename s, callee = src_callee s, callback = None\<rparr>, g)
      | Some (ty, body) \<Rightarrow>
          (if body = JUndef
           then (\<lparr>filename = src_filename s, callee = src_callee s,
                  callback = Some (FnArg ty None)\<rparr>, g)
           else (\<lparr>filename = src_filename s, callee = src_callee s,
                  callback = Some (FnArg ty (Some (length (heap g))))\<rparr>,
                 g\<lparr>heap := heap g @ [body]\<rparr>)))"

fun run_plugin ::
  "(string \<Rightarrow> bool \<Rightarrow> bool \<Rightarrow> string) \<Rightarrow> (string \<Rightarrow> string) \<Rightarrow> engine \<Rightarrow> jsval
     \<Rightarrow> parsed_site list \<Rightarrow> gstate \<Rightarrow> call_site list \<times> gstate" where
  "run_plugin hash resolve eng cfg [] g = ([], g)"
| "run_plugin hash resolve eng cfg (s # ss) g =
     (case parse_site s g of
        (site, g1) \<Rightarrow>
          (case CallExpression hash resolve eng cfg site g1 of
             (site', g2) \<Rightarrow>
               (case run_plugin hash resolve eng cfg ss g2 of
                  (sites, g3) \<Rightarrow> (site' # sites, g3))))"

definition initial :: gstate where
  "initial = \<lparr>usedObjects = [], transformedNodes = [], heap = [], calls = [], errors = []\<rparr>"

section \<open>The configuration (scripts/parseConfig.js)\<close>

text \<open>What the file system says of \<open>galadriel.json\<close>: it is not there, reading it throws,
  or its text. \<open>JSON.parse\<close> is a parameter: \<open>None\<close> when it throws a SyntaxError.\<close>

datatype config_file = Absent | Unreadable | Content string

text \<open>\<open>const { exclude = [], module = false } = config\<close>: \<open>null\<close> cannot be destructured;
  a default stands in for a property that is \<open>undefined\<close>.\<close>

definition with_default :: "jsval \<Rightarrow> jsval \<Rightarrow> jsval" where
  "with_default v d = (if v = JUndef then d else v)"

definition parseConfig :: "(string \<Rightarrow> jsval option) \<Rightarrow> config_file \<Rightarrow> jsval \<times> error list" where
  "parseConfig json_parse file =
     (case file of
        Absent \<Rightarrow> (JArr [], [])
      | Unreadable \<Rightarrow> (JArr [], [IOError])
      | Content txt \<Rightarrow>
          (case json_parse txt of
             None \<Rightarrow> (JArr [], [SyntaxError])
           | Some config \<Rightarrow>
               (case getprop config (Fld ''exclude'') of
                  Inl e \<Rightarrow> (JArr [], [e])
                | Inr ex \<Rightarrow>
                    (JObj [(''exclude'', with_default ex (JArr [])),
                           (''module'', with_default (get config [Fld ''module'']) (JBool False))],
                     []))))"

section \<open>The build command (src/cli/build/index.js)\<close>

text \<open>\<open>`${item}`\<close>: the text of a value (an array joins the texts of its elements).\<close>

fun js_toString :: "jsval \<Rightarrow> string" where
  "js_toString JUndef = ''undefined''"
| "js_toString JNull = ''null''"
| "js_toString (JBool b) = (if b then ''true'' else ''false'')"
| "js_toString (JNum n) = show_int n"
| "js_toString (JStr s) = s"
| "js_toString (JArr xs) =
     intercalate '','' (map (\<lambda>x. if x = JUndef \<or> x = JNull then [] else js_toString x) xs)"
| "js_toString (JObj fs) = ''[object Object]''"

text \<open>\<open>item.includes(x)\<close>: strings and arrays have the method.\<close>

fun item_includes :: "jsval \<Rightarrow> string \<Rightarrow> error + bool" where
  "item_includes (JStr s) x = Inr (str_includes s x)"
| "item_includes (JArr xs) x = Inr (JStr x \<in> set xs)"
| "item_includes v x = Inl TypeError"

text \<open>The function mapped over \<open>exclude\<close> (lines 24 to 33).\<close>

definition expand_item :: "jsval \<Rightarrow> error + jsval" where
  "expand_item item =
     (case item_includes item ''./'' of Inl e \<Rightarrow> Inl e
      | Inr a \<Rightarrow>
          if a then Inr item
          else (case item_includes item ''/'' of Inl e \<Rightarrow> Inl e
          | Inr b \<Rightarrow>
              if b then Inr item
              else (case item_includes item ''.'' of Inl e \<Rightarrow> Inl e
              | Inr c \<Rightarrow> if c then Inr item else Inr (JStr (js_toString item @ ''/**'')))))"

fun map_items :: "jsval list \<Rightarrow> error + jsval list" where
  "map_items [] = Inr []"
| "map_items (x # xs) =
     (case expand_item x of Inl e \<Rightarrow> Inl e
      | Inr y \<Rightarrow> (case map_items xs of Inl e \<Rightarrow> Inl e | Inr ys \<Rightarrow> Inr (y # ys)))"

definition ignore_list :: "jsval \<Rightarrow> error + jsval list" where
  "ignore_list exclude =
     (case exclude of
        JArr items \<Rightarrow>
          (case map_items items of Inl e \<Rightarrow> Inl e
           | Inr ys \<Rightarrow> Inr ([JStr ''node_modules/**'', JStr ''**/*.{config.js,config.ts}'',
                            JStr ''**/*.{.}''] @ ys))
      | _ \<Rightarrow> Inl TypeError)"

text \<open>
  \<open>glob(pattern, {ignore})\<close> is the library's: of the project's files (their paths from
  the working directory) it returns those the pattern matches and no ignore pattern
  matches. The matcher of one pattern against one path is the parameter \<open>gmatch\<close>. An
  ignore entry that is not a string is no pattern: the library throws a TypeError
  (\<open>invalid pattern\<close>).
\<close>

fun is_pattern :: "jsval \<Rightarrow> bool" where
  "is_pattern (JStr pat) = True"
| "is_pattern v = False"

definition glob ::
  "(string \<Rightarrow> string \<Rightarrow> bool) \<Rightarrow> string list \<Rightarrow> string \<Rightarrow> jsval list \<Rightarrow> error + string list" where
  "glob gmatch files pattern ignore =
     (if list_all is_pattern ignore
      then Inr (filter (\<lambda>f. gmatch pattern f
                 \<and> \<not> list_ex (\<lambda>i. case i of JStr pat \<Rightarrow> gmatch pat f | _ \<Rightarrow> False) ignore) files)
      else Inl TypeError)"

text \<open>
  \<open>assembleApplicationStyles\<close>. \<open>selected_paths\<close> are the paths of \<open>files\<close> that reach
  \<open>processContent\<close>, in order (\<open>__path[0] !== "."\<close> holds of the empty path);
  \<open>processContent\<close> is called with \<open>path.resolve\<close> of each. An exception (a configuration
  without a list \<open>exclude\<close>, an entry that is no pattern) is printed and nothing is
  processed.
\<close>

definition selected_paths :: "(string \<Rightarrow> string \<Rightarrow> bool) \<Rightarrow> string list \<Rightarrow> jsval \<Rightarrow> error + string list" where
  "selected_paths gmatch files cfg =
     (case ignore_list (get cfg [Fld ''exclude'']) of
        Inl e \<Rightarrow> Inl e
      | Inr ignore \<Rightarrow>
          (case glob gmatch files ''**/*.{js,jsx,ts,tsx}'' ignore of
             Inl e \<Rightarrow> Inl e
           | Inr found \<Rightarrow>
               Inr (filter (\<lambda>p. case p of [] \<Rightarrow> True | c # cs \<Rightarrow> c \<noteq> CHR ''.'') found)))"

definition assembleApplicationStyles ::
  "(string \<Rightarrow> string \<Rightarrow> bool) \<Rightarrow> string list \<Rightarrow> (string \<Rightarrow> string) \<Rightarrow> jsval
     \<Rightarrow> string list \<times> error list" where
  "assembleApplicationStyles gmatch files resolve cfg =
     (case selected_paths gmatch files cfg of
        Inl e \<Rightarrow> ([], [e])
      | Inr ps \<Rightarrow> (map resolve ps, []))"

section \<open>What the walker is to visit\<close>

text \<open>
  The order in which the loop's stack discipline takes the nodes of a tree, on the tree as
  it is before the walk.
\<close>

function walk_order :: "jsval \<Rightarrow> sel list list \<Rightarrow> sel list list" where
  "walk_order r [] = []"
| "walk_order r (p # stack) =
     p # walk_order r (rev (map (\<lambda>k. p @ [k]) (kids (get r p))) @ stack)"
  by pat_completeness auto

text \<open>
  The nodes the specification asks for, in its words: the root, and every object or
  array that is the value of a named slot or an element of a sequence of a reachable node,
  but not the sequence-valued slots of an object literal.
\<close>

inductive_set reach :: "jsval \<Rightarrow> sel list set" for r :: jsval where
  reach_root: "[] \<in> reach r"
| reach_child:
    "p \<in> reach r \<Longrightarrow> k \<in> set (js_keys (get r p)) \<Longrightarrow> is_object (get r (p @ [k])) \<Longrightarrow>
     \<not> (isType ''ObjectExpression'' (get r p) \<and> is_array (get r (p @ [k]))) \<Longrightarrow>
     p @ [k] \<in> reach r"

text \<open>A JavaScript object has each of its keys once.\<close>

fun wf_js :: "jsval \<Rightarrow> bool" where
  "wf_js (JObj fs) = (distinct (map fst fs) \<and> (\<forall>kv \<in> set fs. wf_js (snd kv)))"
| "wf_js (JArr xs) = (\<forall>x \<in> set xs. wf_js x)"
| "wf_js v = True"

section \<open>Call sites with one fingerprint\<close>


text \<open>The callback body the parser made for a call site, and the reference \<open>callback.body\<close>
  of a call site.\<close>

definition the_body :: "parsed_site \<Rightarrow> jsval" where
  "the_body s = (case src_callback s of None \<Rightarrow> JUndef | Some (ty, body) \<Rightarrow> body)"








section \<open>Syntax trees for examples\<close>

text \<open>
  The nodes Babel's parser makes for \<open>name\<close>, \<open>"text"\<close>, \<open>key: value\<close> and \<open>{ ... }\<close>,
  with the properties the plugin reads (the parser adds positions, which the plugin
  only walks through), and the test double of the specification's scenario:
  \<open>f(prop, val, ...) = prop + "_" + val\<close>.
\<close>

definition mk_identifier :: "string \<Rightarrow> jsval" where
  "mk_identifier n = JObj [(''type'', JStr ''Identifier''), (''name'', JStr n)]"

definition mk_string :: "string \<Rightarrow> jsval" where
  "mk_string s = JObj [(''type'', JStr ''StringLiteral''), (''value'', JStr s)]"

definition mk_property :: "string \<Rightarrow> jsval \<Rightarrow> jsval" where
  "mk_property k v = JObj [(''type'', JStr ''ObjectProperty''), (''key'', mk_identifier k), (''value'', v)]"

definition mk_object :: "jsval list \<Rightarrow> jsval" where
  "mk_object ps = JObj [(''type'', JStr ''ObjectExpression''), (''properties'', JArr ps)]"

definition mock_engine :: engine where
  "mock_engine log c = Inr (js_toString (arg_name c) @ ''_'' @ arg_value c)"

text \<open>\<open>{ bgd: "red", Hover: { color: "blue" } }\<close>\<close>

definition scenario :: jsval where
  "scenario = mk_object [mk_property ''bgd'' (mk_string ''red''),
                         mk_property ''Hover'' (mk_object [mk_property ''color'' (mk_string ''blue'')])]"

text \<open>The body of a call site as the visitor left it, and as the parser made it.\<close>

definition body_of :: "gstate \<Rightarrow> call_site \<Rightarrow> jsval option" where
  "body_of g site =
     (case callback site of
        None \<Rightarrow> None
      | Some cb \<Rightarrow> (case fn_body cb of None \<Rightarrow> None | Some a \<Rightarrow> Some (deref g a)))"

definition src_body :: "parsed_site \<Rightarrow> jsval option" where
  "src_body s =
     (case src_callback s of
        None \<Rightarrow> None
      | Some (ty, body) \<Rightarrow> if body = JUndef then None else Some body)"

text \<open>\<open>{ return { bgd: "red", Hover: { color: "blue" } } }\<close>, the return statement with a
  position, as the body of \<open>function () { return {...} }\<close>.\<close>

definition example_block :: jsval where
  "example_block =
     JObj [(''type'', JStr ''BlockStatement''),
           (''body'', JArr [JObj [(''type'', JStr ''ReturnStatement''),
                                  (''argument'', scenario),
                                  (''loc'', JObj [(''start'', JNum 3), (''end'', JNum 60)])]]),
           (''directives'', JArr [])]"




text \<open>The template literals \<open>`${test ? "a" : "b"}`\<close> and \<open>`text`\<close> as the parser makes them.\<close>

definition mk_element :: "string \<Rightarrow> jsval" where
  "mk_element s = JObj [(''type'', JStr ''TemplateElement''),
                        (''value'', JObj [(''raw'', JStr s), (''cooked'', JStr s)])]"

definition mk_ternary :: "jsval \<Rightarrow> string \<Rightarrow> string \<Rightarrow> jsval" where
  "mk_ternary test a b =
     JObj [(''type'', JStr ''TemplateLiteral''),
           (''expressions'', JArr [JObj [(''type'', JStr ''ConditionalExpression''),
                                         (''test'', test),
                                         (''consequent'', mk_string a),
                                         (''alternate'', mk_string b)]]),
           (''quasis'', JArr [mk_element [], mk_element []])]"

definition mk_template :: "string \<Rightarrow> jsval" where
  "mk_template s =
     JObj [(''type'', JStr ''TemplateLiteral''),
           (''expressions'', JArr []),
           (''quasis'', JArr [mk_element s])]"

text \<open>The template literal \<open>`${first}${test ? "a" : "b"}`\<close>: the ternary is its second
  expression.\<close>

definition mk_ternary_second :: "jsval \<Rightarrow> jsval \<Rightarrow> string \<Rightarrow> string \<Rightarrow> jsval" where
  "mk_ternary_second first test a b =
     JObj [(''type'', JStr ''TemplateLiteral''),
           (''expressions'', JArr [first,
                                   JObj [(''type'', JStr ''ConditionalExpression''),
                                         (''test'', test),
                                         (''consequent'', mk_string a),
                                         (''alternate'', mk_string b)]]),
           (''quasis'', JArr [mk_element [], mk_element [], mk_element []])]"




definition plain_hash :: "string \<Rightarrow> bool \<Rightarrow> bool \<Rightarrow> string" where
  "plain_hash txt a b = txt"


text \<open>A call \<open>craftingStyles(() => body)\<close> in the file \<open>f\<close>.\<close>

definition example_site :: "string \<Rightarrow> jsval \<Rightarrow> parsed_site" where
  "example_site f body =
     \<lparr>src_filename = Some f, src_callee = mk_identifier ''craftingStyles'',
      src_callback = Some (JStr ''ArrowFunctionExpression'', body)\<rparr>"

section \<open>Reading a tree and its changed copy\<close>

text \<open>
  A chain of reads is \<open>tame\<close> when it never indexes into one of the strings the
  transformer may replace; \<open>eflag\<close> tells whether the value it ends at stands under
  \<open>value\<close> or \<open>cooked\<close>. Two reads are the same when both throw, or both return values
  with one skeleton.
\<close>

fun tame :: "bool \<Rightarrow> sel list \<Rightarrow> bool" where
  "tame e [] = True"
| "tame e (Fld k # ks) = tame (erasable k) ks"
| "tame e (Idx i # ks) = (\<not> e \<and> tame False ks)"

fun eflag :: "bool \<Rightarrow> sel list \<Rightarrow> bool" where
  "eflag e [] = e"
| "eflag e (Fld k # ks) = eflag (erasable k) ks"
| "eflag e (Idx i # ks) = eflag False ks"

definition same_read :: "bool \<Rightarrow> error + jsval \<Rightarrow> error + jsval \<Rightarrow> bool" where
  "same_read f r1 r2 =
     (case r1 of Inl x \<Rightarrow> r2 = Inl x
      | Inr u \<Rightarrow> (case r2 of Inl y \<Rightarrow> False | Inr v \<Rightarrow> skeleton f u = skeleton f v))"



section \<open>The transformer changes strings only\<close>

lemma size_skeleton: "size (skeleton e v) = size v"
proof (induction v arbitrary: e)
  case (JArr xs)
  have "map (\<lambda>x. size (skeleton False x)) xs = map size xs"
    using JArr by (intro map_cong) auto
  then have "sum_list (map (\<lambda>x. size (skeleton False x)) xs) = sum_list (map size xs)"
    by (rule arg_cong)
  then show ?case by (simp add: size_list_conv_sum_list comp_def)
next
  case (JObj fs)
  have "map (\<lambda>x. size_prod (\<lambda>x. 0) size (fst x, skeleton (erasable (fst x)) (snd x))) fs
        = map (size_prod (\<lambda>x. 0) size) fs"
    using JObj by (intro map_cong) (auto simp: snds.simps)
  then have "sum_list (map (\<lambda>x. size_prod (\<lambda>x. 0) size (fst x, skeleton (erasable (fst x)) (snd x))) fs)
        = sum_list (map (size_prod (\<lambda>x. 0) size) fs)"
    by (rule arg_cong)
  then show ?case by (simp add: size_list_conv_sum_list comp_def)
qed simp_all

lemma skeleton_object: "is_object v \<Longrightarrow> skeleton e v = skeleton False v"
  by (cases v) auto

lemma skeleton_flag: "skeleton e a = skeleton e b \<Longrightarrow> skeleton True a = skeleton True b"
  by (cases a; cases b) (auto split: if_splits)

lemma skeleton_is_object: "skeleton e a = skeleton e' b \<Longrightarrow> is_object a = is_object b"
  by (cases a; cases b) (auto split: if_splits)

lemma skeleton_update:
  "map_of fs k = Some u \<Longrightarrow> skeleton (erasable k) u' = skeleton (erasable k) u \<Longrightarrow>
   map (\<lambda>kv. (fst kv, skeleton (erasable (fst kv)) (snd kv))) (AList.update k u' fs)
   = map (\<lambda>kv. (fst kv, skeleton (erasable (fst kv)) (snd kv))) fs"
  by (induction fs) (auto split: if_splits)

lemma get_Nil [simp]: "get v [] = v"
  by (simp add: get_def)

lemma get_Cons:
  "get v (k # ks) = (case getprop v k of Inl e \<Rightarrow> JUndef | Inr w \<Rightarrow> get w ks)"
  by (simp add: get_def split: sum.splits)

lemma get_JUndef [simp]: "get JUndef p = JUndef"
  by (cases p) (simp_all add: get_Cons)

lemma put_sub_skeleton:
  "(\<And>e. skeleton e w = skeleton e (get v path)) \<Longrightarrow> skeleton e (put v path w) = skeleton e v"
proof (induction path arbitrary: v e)
  case Nil
  then show ?case by simp
next
  case (Cons k ks)
  show ?case
  proof (cases v)
    case (JObj fs)
    show ?thesis
    proof (cases k)
      case (Fld key)
      show ?thesis
      proof (cases "map_of fs key")
        case None
        then show ?thesis using JObj Fld by simp
      next
        case (Some u)
        have "\<And>e. skeleton e w = skeleton e (get u ks)"
          using Cons.prems JObj Fld Some by (simp add: get_Cons)
        then have "skeleton (erasable key) (put u ks w) = skeleton (erasable key) u"
          by (rule Cons.IH)
        then show ?thesis using JObj Fld Some by (simp add: skeleton_update)
      qed
    next
      case (Idx i)
      show ?thesis
      proof (cases "map_of fs (digits i)")
        case None
        then show ?thesis using JObj Idx by simp
      next
        case (Some u)
        have "\<And>e. skeleton e w = skeleton e (get u ks)"
          using Cons.prems JObj Idx Some by (simp add: get_Cons)
        then have "skeleton (erasable (digits i)) (put u ks w) = skeleton (erasable (digits i)) u"
          by (rule Cons.IH)
        then show ?thesis using JObj Idx Some by (simp add: skeleton_update)
      qed
    qed
  next
    case (JArr xs)
    show ?thesis
    proof (cases k)
      case (Fld key)
      then show ?thesis using JArr by simp
    next
      case (Idx i)
      show ?thesis
      proof (cases "i < length xs")
        case False
        then show ?thesis using JArr Idx by simp
      next
        case True
        have "\<And>e. skeleton e w = skeleton e (get (xs ! i) ks)"
          using Cons.prems JArr Idx True by (simp add: get_Cons)
        then have "skeleton False (put (xs ! i) ks w) = skeleton False (xs ! i)"
          by (rule Cons.IH)
        then show ?thesis using JArr Idx True by (simp add: map_update list_update_same_conv)
      qed
    qed
  qed simp_all
qed

lemma put_str_skeleton:
  "getpath v (pre @ [Fld k]) = Inr (JStr s0) \<Longrightarrow> erasable k \<Longrightarrow>
   skeleton e (put v (pre @ [Fld k]) (JStr s)) = skeleton e v"
proof (induction pre arbitrary: v e)
  case Nil
  show ?case
  proof (cases v)
    case (JObj fs)
    then show ?thesis using Nil by (auto simp: skeleton_update split: option.splits)
  qed simp_all
next
  case (Cons x pre)
  show ?case
  proof (cases v)
    case (JObj fs)
    show ?thesis
    proof (cases x)
      case (Fld key)
      show ?thesis
      proof (cases "map_of fs key")
        case None
        then show ?thesis using JObj Fld by simp
      next
        case (Some u)
        have "getpath u (pre @ [Fld k]) = Inr (JStr s0)"
          using Cons.prems(1) JObj Fld Some by simp
        then have "skeleton (erasable key) (put u (pre @ [Fld k]) (JStr s)) = skeleton (erasable key) u"
          using Cons.prems(2) by (rule Cons.IH)
        then show ?thesis using JObj Fld Some by (simp add: skeleton_update)
      qed
    next
      case (Idx i)
      show ?thesis
      proof (cases "map_of fs (digits i)")
        case None
        then show ?thesis using JObj Idx by simp
      next
        case (Some u)
        have "getpath u (pre @ [Fld k]) = Inr (JStr s0)"
          using Cons.prems(1) JObj Idx Some by simp
        then have "skeleton (erasable (digits i)) (put u (pre @ [Fld k]) (JStr s)) = skeleton (erasable (digits i)) u"
          using Cons.prems(2) by (rule Cons.IH)
        then show ?thesis using JObj Idx Some by (simp add: skeleton_update)
      qed
    qed
  next
    case (JArr xs)
    show ?thesis
    proof (cases x)
      case (Fld key)
      then show ?thesis using JArr by simp
    next
      case (Idx i)
      show ?thesis
      proof (cases "i < length xs")
        case False
        then show ?thesis using JArr Idx by simp
      next
        case True
        have "getpath (xs ! i) (pre @ [Fld k]) = Inr (JStr s0)"
          using Cons.prems(1) JArr Idx True by simp
        then have "skeleton False (put (xs ! i) (pre @ [Fld k]) (JStr s)) = skeleton False (xs ! i)"
          using Cons.prems(2) by (rule Cons.IH)
        then show ?thesis using JArr Idx True by (simp add: map_update list_update_same_conv)
      qed
    qed
  qed simp_all
qed

lemma same_read_refl [simp]: "same_read f r r"
  by (simp add: same_read_def split: sum.splits)

lemma last_digits: "last (digits n) = ''0123456789'' ! (n mod 10)"
  by (subst digits.simps) simp

lemma erasable_digits [simp]: "\<not> erasable (digits n)"
proof
  assume "erasable (digits n)"
  then have "last (digits n) = CHR ''e'' \<or> last (digits n) = CHR ''d''"
    by (auto simp: erasable_def)
  moreover have "''0123456789'' ! (n mod 10) \<in> set ''0123456789''"
    by (rule nth_mem) simp
  ultimately show False by (auto simp: last_digits)
qed

lemma map_of_skeleton_rel:
  "map (\<lambda>kv. (fst kv, skeleton (erasable (fst kv)) (snd kv))) fs
   = map (\<lambda>kv. (fst kv, skeleton (erasable (fst kv)) (snd kv))) fs' \<Longrightarrow>
   (case map_of fs k of None \<Rightarrow> map_of fs' k = None
    | Some u \<Rightarrow> (\<exists>u'. map_of fs' k = Some u' \<and> skeleton (erasable k) u = skeleton (erasable k) u'))"
proof (induction fs arbitrary: fs')
  case Nil
  then show ?case by simp
next
  case (Cons x fs)
  then obtain y ys where fs': "fs' = y # ys" by (cases fs') auto
  with Cons.prems have hd: "fst x = fst y" "skeleton (erasable (fst x)) (snd x) = skeleton (erasable (fst x)) (snd y)"
    and tl: "map (\<lambda>kv. (fst kv, skeleton (erasable (fst kv)) (snd kv))) fs
             = map (\<lambda>kv. (fst kv, skeleton (erasable (fst kv)) (snd kv))) ys"
    by auto
  show ?case
  proof (cases "fst x = k")
    case True
    then show ?thesis using hd fs' by (cases x; cases y) auto
  next
    case False
    then show ?thesis using Cons.IH[OF tl] hd fs' by (cases x; cases y) (auto split: option.splits)
  qed
qed

lemma getprop_skeleton:
  assumes "skeleton e a = skeleton e b" and "tame e [k]"
  shows "same_read (eflag e [k]) (getprop a k) (getprop b k)"
proof (cases a)
  case (JObj fs)
  then obtain fs' where b: "b = JObj fs'" using assms(1) by (cases b) (auto split: if_splits)
  have m: "map (\<lambda>kv. (fst kv, skeleton (erasable (fst kv)) (snd kv))) fs
           = map (\<lambda>kv. (fst kv, skeleton (erasable (fst kv)) (snd kv))) fs'"
    using assms(1) JObj b by simp
  show ?thesis
  proof (cases k)
    case (Fld key)
    then show ?thesis using map_of_skeleton_rel[OF m, of key] JObj b
      by (auto simp: same_read_def split: option.splits)
  next
    case (Idx i)
    then show ?thesis using map_of_skeleton_rel[OF m, of "digits i"] JObj b
      by (auto simp: same_read_def split: option.splits)
  qed
next
  case (JArr xs)
  then obtain ys where b: "b = JArr ys" using assms(1) by (cases b) (auto split: if_splits)
  have m: "map (skeleton False) xs = map (skeleton False) ys" using assms(1) JArr b by simp
  then have len: "length xs = length ys" by (rule map_eq_imp_length_eq)
  show ?thesis
  proof (cases k)
    case (Fld key)
    then show ?thesis using JArr b by simp
  next
    case (Idx i)
    have "i < length xs \<Longrightarrow> skeleton False (xs ! i) = skeleton False (ys ! i)"
      using m len by (metis nth_map)
    then show ?thesis using JArr b Idx len by (auto simp: same_read_def)
  qed
next
  case (JStr s)
  then obtain s' where b: "b = JStr s'" using assms(1) by (cases b) (auto split: if_splits)
  show ?thesis
  proof (cases k)
    case (Fld key)
    then show ?thesis using JStr b by simp
  next
    case (Idx i)
    then have "\<not> e" using assms(2) by simp
    then have "s' = s" using assms(1) JStr b by simp
    then show ?thesis using JStr b by simp
  qed
qed (use assms in \<open>cases b; auto split: if_splits\<close>)+

lemma getpath_skeleton:
  "skeleton e a = skeleton e b \<Longrightarrow> tame e p \<Longrightarrow>
   same_read (eflag e p) (getpath a p) (getpath b p)"
proof (induction p arbitrary: a b e)
  case Nil
  then show ?case by (simp add: same_read_def)
next
  case (Cons k ks)
  have t1: "tame e [k]" and t2: "tame (eflag e [k]) ks"
    using Cons.prems(2) by (cases k; simp)+
  have fl: "eflag e (k # ks) = eflag (eflag e [k]) ks" by (cases k) simp_all
  have r: "same_read (eflag e [k]) (getprop a k) (getprop b k)"
    using Cons.prems(1) t1 by (rule getprop_skeleton)
  show ?case
  proof (cases "getprop a k")
    case (Inl x)
    then show ?thesis using r by (simp add: same_read_def)
  next
    case (Inr u)
    then obtain v where v: "getprop b k = Inr v" "skeleton (eflag e [k]) u = skeleton (eflag e [k]) v"
      using r by (auto simp: same_read_def split: sum.splits)
    show ?thesis using Cons.IH[OF v(2) t2] Inr v(1) fl by simp
  qed
qed

lemma replaceAll_quotes_Inr: "replaceAll_quotes v = Inr r \<Longrightarrow> \<exists>s0. v = JStr s0"
  by (cases v) simp_all

lemma engine_args_string:
  "engine_args m fp pseudo path property = Inr c \<Longrightarrow> \<exists>s0. getpath property path = Inr (JStr s0)"
  unfolding engine_args_def
  by (auto split: sum.splits dest: replaceAll_quotes_Inr simp del: getpath.simps)

lemma string_step_skeleton:
  "erasable k \<Longrightarrow>
   skeleton e (fst (string_step eng m fp pseudo (pre @ [Fld k]) property log)) = skeleton e property"
  unfolding string_step_def
  by (auto split: sum.splits dest!: engine_args_string simp: put_str_skeleton)

lemma consequent_path_split: "consequent_path = [Fld ''value'', Fld ''expressions'', Idx 0, Fld ''consequent''] @ [Fld ''value'']"
  by (simp add: consequent_path_def)

lemma alternate_path_split: "alternate_path = [Fld ''value'', Fld ''expressions'', Idx 0, Fld ''alternate''] @ [Fld ''value'']"
  by (simp add: alternate_path_def)

lemma cooked_path_split: "cooked_path = [Fld ''value'', Fld ''quasis'', Idx 0, Fld ''value''] @ [Fld ''cooked'']"
  by (simp add: cooked_path_def)

lemma literal_path_split: "[Fld ''value'', Fld ''value''] = [Fld ''value''] @ [Fld ''value'']"
  by simp

lemma put_consequent_skeleton:
  "getpath p consequent_path = Inr (JStr s0) \<Longrightarrow> skeleton e (put p consequent_path (JStr s)) = skeleton e p"
  unfolding consequent_path_split by (rule put_str_skeleton) (simp_all add: erasable_def)

lemma put_alternate_skeleton:
  "getpath p alternate_path = Inr (JStr s0) \<Longrightarrow> skeleton e (put p alternate_path (JStr s)) = skeleton e p"
  unfolding alternate_path_split by (rule put_str_skeleton) (simp_all add: erasable_def)

lemma string_at_skeleton:
  assumes "skeleton False a = skeleton False b" "getpath a p = Inr (JStr s)" "tame False p" "eflag False p"
  shows "\<exists>s'. getpath b p = Inr (JStr s')"
proof -
  have "same_read True (getpath a p) (getpath b p)"
    using getpath_skeleton[OF assms(1) assms(3)] assms(4) by simp
  then obtain v where v: "getpath b p = Inr v" "skeleton True v = JStr []"
    using assms(2) by (auto simp: same_read_def split: sum.splits)
  then show ?thesis by (cases v) (auto split: if_splits)
qed

lemma ternary_step_skeleton:
  "skeleton e (fst (ternary_step eng m fp pseudo property log)) = skeleton e property"
proof -
  have alt: "skeleton e (put p1 alternate_path (JStr s)) = skeleton e property"
    if "getpath property alternate_path = Inr (JStr s0)" and "\<And>e. skeleton e p1 = skeleton e property"
    for p1 s s0 e
  proof -
    have "\<exists>s'. getpath p1 alternate_path = Inr (JStr s')"
      using that(2)[of False, symmetric] that(1)
      by (rule string_at_skeleton) (simp_all add: alternate_path_def erasable_def)
    then show ?thesis using that(2) by (auto simp: put_alternate_skeleton)
  qed
  show ?thesis
    unfolding ternary_step_def
    by (auto split: sum.splits dest!: engine_args_string simp: Let_def put_consequent_skeleton alt)
qed

lemma transformTemplateLiteral_skeleton:
  "skeleton e (fst (transformTemplateLiteral eng m fp pseudo property log)) = skeleton e property"
  unfolding transformTemplateLiteral_def
  using string_step_skeleton[of "''cooked''" e eng m fp pseudo "[Fld ''value'', Fld ''quasis'', Idx 0, Fld ''value'']" property log]
  by (auto split: sum.splits simp: ternary_step_skeleton cooked_path_def erasable_def simp del: getpath.simps)

lemma loop_props_skeleton:
  assumes "\<And>p log. skeleton False (fst (f p log)) = skeleton False p"
  shows "map (skeleton False) (fst (loop_props f ps log)) = map (skeleton False) ps"
proof (induction ps arbitrary: log)
  case Nil
  then show ?case by simp
next
  case (Cons p ps)
  show ?case
    using assms[of p log] Cons.IH
    apply (cases "f p log")
    apply (auto split: option.splits prod.splits)
    apply (metis fst_conv)
    done
qed

lemma loop_over_skeleton:
  assumes "\<And>p log. skeleton False (fst (f p log)) = skeleton False p"
  shows "skeleton e (fst (loop_over f props log)) = skeleton e props"
  unfolding loop_over_def
  using loop_props_skeleton[of f, OF assms]
  apply (cases props)
  apply (auto split: sum.splits prod.splits)
  apply (metis fst_conv)
  done

lemma nested_step_skeleton:
  "skeleton e (fst (nested_step eng m fp pseudo np log)) = skeleton e np"
  unfolding nested_step_def
  using string_step_skeleton[of "''value''" e eng m fp pseudo "[Fld ''value'']" np log]
  by (auto split: sum.splits simp: transformTemplateLiteral_skeleton erasable_def simp del: getpath.simps)

lemma get_of_getpath: "getpath v p = Inr u \<Longrightarrow> get v p = u"
  by (simp add: get_def)

lemma property_step_skeleton:
  "skeleton e (fst (property_step eng m fp property log)) = skeleton e property"
proof -
  have nested: "skeleton e (put property [Fld ''value'', Fld ''properties'']
                  (fst (loop_over (nested_step eng m fp ps) props log))) = skeleton e property"
    if "getpath property [Fld ''value'', Fld ''properties''] = Inr props" for ps props e
  proof (rule put_sub_skeleton)
    fix e'
    show "skeleton e' (fst (loop_over (nested_step eng m fp ps) props log))
          = skeleton e' (get property [Fld ''value'', Fld ''properties''])"
      using that by (simp add: get_of_getpath loop_over_skeleton nested_step_skeleton del: getpath.simps)
  qed
  show ?thesis
    unfolding property_step_def
    using string_step_skeleton[of "''value''" e eng m fp "JStr []" "[Fld ''value'']" property log]
    apply (auto split: sum.splits prod.splits simp: transformTemplateLiteral_skeleton erasable_def simp del: getpath.simps put.simps)
    apply (metis fst_conv nested)
    done
qed

lemma generatesAlchemy_skeleton:
  "skeleton e (fst (generatesAlchemy eng m fp node st)) = skeleton e node"
proof -
  have "skeleton e (put node [Fld ''properties'']
          (fst (loop_over (property_step eng m fp) (get node [Fld ''properties'']) (fst st)))) = skeleton e node"
    by (rule put_sub_skeleton) (simp add: loop_over_skeleton property_step_skeleton)
  then show ?thesis
    unfolding generatesAlchemy_def
    by (auto split: prod.splits simp del: put.simps)
qed

lemma visit_skeleton:
  "skeleton e (root (visit eng m fp p w)) = skeleton e (root w)"
proof -
  have "skeleton e (put (root w) p (fst (generatesAlchemy eng m fp (get (root w) p) (w_calls w, w_errors w))))
        = skeleton e (root w)"
    by (rule put_sub_skeleton) (simp add: generatesAlchemy_skeleton)
  then show ?thesis
    unfolding visit_def by (auto split: prod.splits)
qed


section \<open>The walk ends\<close>

lemma not_object_get_str: "\<not> is_object (get (JStr s) p)"
proof (induction p arbitrary: s)
  case Nil
  then show ?case by simp
next
  case (Cons k ks)
  then show ?case by (cases k) (auto simp: get_Cons)
qed

lemma skeleton_nonstr:
  "skeleton e a = skeleton e b \<Longrightarrow> (\<And>s. a \<noteq> JStr s) \<Longrightarrow> skeleton False a = skeleton False b"
  by (cases a; cases b) (auto split: if_splits)

lemma tame_False_single [simp]: "tame False [k]"
  by (cases k) simp_all

lemma get_skeleton_False:
  "skeleton False a = skeleton False b \<Longrightarrow>
   is_object (get a p) = is_object (get b p)
   \<and> (is_object (get a p) \<longrightarrow> skeleton False (get a p) = skeleton False (get b p))"
proof (induction p arbitrary: a b)
  case Nil
  then show ?case by (auto dest: skeleton_is_object)
next
  case (Cons k ks)
  have r: "same_read (eflag False [k]) (getprop a k) (getprop b k)"
    using Cons.prems by (rule getprop_skeleton) simp
  show ?case
  proof (cases "getprop a k")
    case (Inl x)
    then show ?thesis using r by (simp add: same_read_def get_Cons)
  next
    case (Inr u)
    then obtain v where v: "getprop b k = Inr v" "skeleton (eflag False [k]) u = skeleton (eflag False [k]) v"
      using r by (auto simp: same_read_def split: sum.splits)
    show ?thesis
    proof (cases "\<exists>s. u = JStr s")
      case True
      then obtain s where u: "u = JStr s" by blast
      then obtain s' where "v = JStr s'" using v(2) by (cases v) (auto split: if_splits)
      then show ?thesis using Inr v(1) u by (simp add: get_Cons not_object_get_str)
    next
      case False
      then have "skeleton False u = skeleton False v"
        using v(2) by (intro skeleton_nonstr) auto
      from Cons.IH[OF this] show ?thesis using Inr v(1) by (simp add: get_Cons)
    qed
  qed
qed

lemma get_skeleton:
  assumes "skeleton e a = skeleton e b"
  shows "is_object (get a p) = is_object (get b p)"
    and "is_object (get a p) \<Longrightarrow> skeleton False (get a p) = skeleton False (get b p)"
proof -
  have "is_object (get a p) = is_object (get b p)
   \<and> (is_object (get a p) \<longrightarrow> skeleton False (get a p) = skeleton False (get b p))"
  proof (cases "\<exists>s. a = JStr s")
    case True
    then obtain s where a: "a = JStr s" by blast
    then obtain s' where "b = JStr s'" using assms by (cases b) (auto split: if_splits)
    then show ?thesis using a by (simp add: not_object_get_str)
  next
    case False
    then have "skeleton False a = skeleton False b"
      using assms by (intro skeleton_nonstr) auto
    then show ?thesis by (rule get_skeleton_False)
  qed
  then show "is_object (get a p) = is_object (get b p)"
    and "is_object (get a p) \<Longrightarrow> skeleton False (get a p) = skeleton False (get b p)" by auto
qed

lemma size_get_skeleton:
  assumes "skeleton e a = skeleton e b"
  shows "size (get a p) = size (get b p)"
proof (cases "is_object (get a p)")
  case True
  then have "skeleton False (get a p) = skeleton False (get b p)"
    using assms by (rule get_skeleton(2)[rotated])
  then have "size (skeleton False (get a p)) = size (skeleton False (get b p))" by simp
  then show ?thesis by (simp add: size_skeleton)
next
  case False
  moreover have "\<not> is_object (get b p)" using False get_skeleton(1)[OF assms, of p] by simp
  ultimately show ?thesis by (cases "get a p"; cases "get b p") simp_all
qed

lemma truthy_object: "is_object v \<Longrightarrow> truthy v"
  by (cases v) simp_all

lemma skeleton_is_array: "skeleton e a = skeleton e' b \<Longrightarrow> is_array a = is_array b"
  by (cases a; cases b) (auto split: if_splits)

lemma skeleton_False_str: "skeleton False a = skeleton False b \<Longrightarrow> (a = JStr t) = (b = JStr t)"
  by (cases a; cases b) (auto split: if_splits)

lemma type_skeleton:
  assumes "skeleton False a = skeleton False b"
  shows "(get a [Fld ''type''] = JStr T) = (get b [Fld ''type''] = JStr T)"
proof -
  have "same_read False (getpath a [Fld ''type'']) (getpath b [Fld ''type''])"
    using getpath_skeleton[OF assms, of "[Fld ''type'']"] by (simp add: erasable_def)
  then show ?thesis
    by (auto simp: get_def same_read_def split: sum.splits dest: skeleton_False_str simp del: getpath.simps)
qed

lemma pushed_skeleton:
  assumes "skeleton False a = skeleton False b"
  shows "pushed a k = pushed b k"
proof -
  have o: "is_object (get a [k]) = is_object (get b [k])"
    using assms by (rule get_skeleton(1))
  have "is_object (get a [k]) \<Longrightarrow> is_array (get a [k]) = is_array (get b [k])"
    using get_skeleton(2)[OF assms] by (auto dest: skeleton_is_array)
  then show ?thesis
    unfolding pushed_def Let_def using o type_skeleton[OF assms, of "''ObjectExpression''"]
    by (auto simp: truthy_object)
qed

lemma js_keys_skeleton: "skeleton False a = skeleton False b \<Longrightarrow> js_keys a = js_keys b"
proof (cases a; cases b)
  fix fs fs' assume a: "a = JObj fs" and b: "b = JObj fs'" and s: "skeleton False a = skeleton False b"
  then have "map fst (map (\<lambda>kv. (fst kv, skeleton (erasable (fst kv)) (snd kv))) fs)
           = map fst (map (\<lambda>kv. (fst kv, skeleton (erasable (fst kv)) (snd kv))) fs')" by simp
  then have "map fst fs = map fst fs'" by (simp add: comp_def)
  then have "map Fld (map fst fs) = map Fld (map fst fs')" by simp
  then show "js_keys a = js_keys b" using a b by (simp add: comp_def)
next
  fix xs ys assume a: "a = JArr xs" and b: "b = JArr ys" and s: "skeleton False a = skeleton False b"
  then have "length xs = length ys" by (auto dest: map_eq_imp_length_eq)
  then show "js_keys a = js_keys b" using a b by simp
qed (auto split: if_splits)

lemma kids_str [simp]: "kids (JStr s) = []"
  by (auto simp: kids_def pushed_def not_object_get_str filter_empty_conv)

lemma kids_skeleton:
  assumes "skeleton e a = skeleton e b"
  shows "kids a = kids b"
proof (cases "\<exists>s. a = JStr s")
  case True
  then obtain s where a: "a = JStr s" by blast
  then obtain s' where "b = JStr s'" using assms by (cases b) (auto split: if_splits)
  then show ?thesis using a by simp
next
  case False
  then have s: "skeleton False a = skeleton False b"
    using assms by (intro skeleton_nonstr) auto
  show ?thesis
  proof -
    have "pushed a = pushed b" using pushed_skeleton[OF s] by (intro ext)
    then show ?thesis unfolding kids_def using js_keys_skeleton[OF s] by simp
  qed
qed

lemma size_field: "(k, v) \<in> set fs \<Longrightarrow> size v < Suc (size_list (size_prod (\<lambda>x. 0) size) fs)"
  by (induction fs) auto

lemma size_elem: "v \<in> set xs \<Longrightarrow> size v < Suc (size_list size xs)"
  by (induction xs) auto

lemma kids_size: "k \<in> set (kids node) \<Longrightarrow> size (get node [k]) < size node"
proof (cases node)
  case (JObj fs)
  assume "k \<in> set (kids node)"
  then obtain key where k: "k = Fld key" and "key \<in> fst ` set fs"
    using JObj by (auto simp: kids_def)
  then obtain v where "map_of fs key = Some v"
    by (metis domIff dom_map_of_conv_image_fst not_Some_eq)
  then show ?thesis using JObj k by (auto simp: get_Cons dest!: map_of_SomeD size_field)
next
  case (JArr xs)
  assume "k \<in> set (kids node)"
  then obtain i where k: "k = Idx i" and "i < length xs"
    using JArr by (auto simp: kids_def)
  then show ?thesis using JArr by (auto simp: get_Cons intro: size_elem)
next
  case (JStr s)
  assume "k \<in> set (kids node)"
  then show ?thesis using JStr by simp
qed (auto simp: kids_def)

lemma getpath_append:
  "getpath v (p @ q) = (case getpath v p of Inl e \<Rightarrow> Inl e | Inr w \<Rightarrow> getpath w q)"
  by (induction p arbitrary: v) (auto split: sum.splits)

lemma get_append: "get v (p @ q) = get (get v p) q"
  by (cases q) (auto simp: get_def getpath_append split: sum.splits)

termination walk_loop
proof (relation "inv_image (mult {(x, y). x < y})
    (\<lambda>(eng, m, fp, w, stack). mset (map (\<lambda>p. size (get (root w) p)) stack))", goal_cases)
  case 1
  show ?case by (intro wf_inv_image wf_mult wf_less)
next
  case (2 eng m fp w p stack w')
  have same: "size (get (root w') q) = size (get (root w) q)" for q
    using 2 size_get_skeleton[OF visit_skeleton[of True eng m fp p w], of q] by simp
  have small: "size (get (root w') (p @ [k])) < size (get (root w) p)"
    if "k \<in> set (kids (get (root w') p))" for k
    using kids_size[OF that] same[of p] by (simp add: get_append)
  have "(mset (map (\<lambda>q. size (get (root w) q)) stack)
          + mset (map (\<lambda>q. size (get (root w') q)) (rev (map (\<lambda>k. p @ [k]) (kids (get (root w') p))))),
         mset (map (\<lambda>q. size (get (root w) q)) stack) + {#size (get (root w) p)#})
        \<in> mult {(x, y). x < y}"
    by (rule one_step_implies_mult) (auto dest: small)
  then show ?case by (simp add: same add.commute)
qed


section \<open>Helper facts about reads, writes and runs\<close>

lemma isType_get: "isType T node = (get node [Fld ''type''] = JStr T)"
  by (cases node) (auto simp: isType_def get_Cons split: option.splits)

lemma getpath_undef [simp]: "getpath JUndef (pre @ [x]) = Inl TypeError"
  by (cases pre) simp_all

lemma getpath_str_no_field: "getpath (JStr t) (pre @ [Fld k]) \<noteq> Inr (JStr s)"
proof (induction pre arbitrary: t)
  case Nil
  then show ?case by simp
next
  case (Cons x pre)
  then show ?case by (cases x) auto
qed

lemma getpath_put_same:
  "getpath v (pre @ [Fld k]) = Inr (JStr s) \<Longrightarrow> getpath (put v (pre @ [Fld k]) w) (pre @ [Fld k]) = Inr w"
proof (induction pre arbitrary: v)
  case Nil
  then show ?case by (cases v) (auto split: option.splits simp: update_conv')
next
  case (Cons x pre)
  show ?case
  proof (cases v)
    case (JObj fs)
    then show ?thesis using Cons by (cases x) (auto split: option.splits simp: update_conv')
  next
    case (JArr xs)
    then show ?thesis using Cons by (cases x) (auto split: if_splits)
  next
    case (JStr t)
    then show ?thesis using Cons.prems getpath_str_no_field[of t "x # pre" k s] by simp
  qed (use Cons.prems in auto)
qed


lemma run_plugin_no_config:
  "run_plugin hash resolve eng (JArr []) sites g = (sites', g') \<Longrightarrow>
   calls g' = calls g \<and> usedObjects g' = usedObjects g \<and> transformedNodes g' = transformedNodes g
   \<and> length (errors g') = length (errors g) + length sites
   \<and> (\<exists>extra. heap g' = heap g @ extra)
   \<and> map (body_of g') sites' = map src_body sites"
proof (induction sites arbitrary: g sites' g')
  case Nil
  then show ?case by simp
next
  case (Cons s ss)
  obtain site g1 where p: "parse_site s g = (site, g1)" by (cases "parse_site s g")
  have g1: "calls g1 = calls g" "usedObjects g1 = usedObjects g" "transformedNodes g1 = transformedNodes g"
    "errors g1 = errors g"
    using p by (auto simp: parse_site_def split: option.splits prod.splits if_splits)
  have h1: "\<exists>extra. heap g1 = heap g @ extra"
    using p by (auto simp: parse_site_def split: option.splits prod.splits if_splits)
  have b1: "body_of (g1\<lparr>heap := heap g1 @ more\<rparr>) site = src_body s" for more
    using p by (auto simp: parse_site_def body_of_def src_body_def deref_def nth_append
        split: option.splits prod.splits if_splits)
  have v: "CallExpression hash resolve eng (JArr []) site g1 = (site, g1\<lparr>errors := errors g1 @ [TypeError]\<rparr>)"
    by (simp add: CallExpression_def get_Cons excludePath_def)
  obtain others g3 where r: "run_plugin hash resolve eng (JArr []) ss (g1\<lparr>errors := errors g1 @ [TypeError]\<rparr>) = (others, g3)"
    by (cases "run_plugin hash resolve eng (JArr []) ss (g1\<lparr>errors := errors g1 @ [TypeError]\<rparr>)")
  from Cons.IH[OF r] obtain more where more: "heap g3 = heap g1 @ more" by auto
  have "body_of g3 site = body_of (g1\<lparr>heap := heap g1 @ more\<rparr>) site"
    using more by (simp add: body_of_def deref_def split: option.splits)
  then have "body_of g3 site = src_body s" using b1 by simp
  moreover have "sites' = site # others" "g' = g3" using Cons.prems p v r by auto
  ultimately show ?case using Cons.IH[OF r] g1 h1 more by auto
qed

section \<open>The transformer on the example trees\<close>

lemma kids_leaf:
  "\<not> is_object v \<Longrightarrow> kids v = []"
proof (cases v)
  case (JStr s)
  then show ?thesis by simp
qed (auto simp: kids_def)

lemma walk_loop_single:
  assumes "kids (get (root w) p) = []"
  shows "walk_loop eng m fp w [p] = visit eng m fp p w"
proof -
  have "skeleton True (root (visit eng m fp p w)) = skeleton True (root w)"
    by (rule visit_skeleton)
  then have o: "is_object (get (root (visit eng m fp p w)) p) = is_object (get (root w) p)"
    and s: "is_object (get (root (visit eng m fp p w)) p) \<Longrightarrow>
       skeleton False (get (root (visit eng m fp p w)) p) = skeleton False (get (root w) p)"
    by (rule get_skeleton)+
  have "kids (get (root (visit eng m fp p w)) p) = kids (get (root w) p)"
  proof (cases "is_object (get (root w) p)")
    case True
    then show ?thesis using o s by (auto intro: kids_skeleton)
  next
    case False
    then show ?thesis using o by (simp add: kids_leaf)
  qed
  then show ?thesis using assms by (simp add: Let_def)
qed

lemma kids_mk_object [simp]: "kids (mk_object ps) = []"
  by (simp add: kids_def pushed_def mk_object_def get_Cons)

lemma walk_mk_object:
  "walkThroughOutAst eng m fp (mk_object ps) st
   = (case generatesAlchemy eng m fp (mk_object ps) st of
        (node', log', errs') \<Rightarrow> \<lparr>root = node', w_calls = log', w_errors = errs', visited = [[]]\<rparr>)"
proof -
  have "walk_loop eng m fp \<lparr>root = mk_object ps, w_calls = fst st, w_errors = snd st, visited = []\<rparr> [[]]
        = visit eng m fp [] \<lparr>root = mk_object ps, w_calls = fst st, w_errors = snd st, visited = []\<rparr>"
    by (rule walk_loop_single) simp
  then show ?thesis
    by (simp add: walkThroughOutAst_def visit_def split: prod.splits del: walk_loop.simps)
qed

lemma generatesAlchemy_mk_object:
  "generatesAlchemy eng m fp (mk_object ps) st
   = (case loop_props (property_step eng m fp) ps (fst st) of
        (ps', log', r) \<Rightarrow> (mk_object ps', log', snd st @ (case r of None \<Rightarrow> [] | Some e \<Rightarrow> [e])))"
  by (simp add: generatesAlchemy_def isType_def mk_object_def get_Cons loop_over_def split: prod.splits)

lemma property_step_mk_string:
  "property_step eng m fp (mk_property k (mk_string s)) log
   = (case eng log (Call (JStr k) (json_quote (single_quotes s)) m (or_empty fp) (JStr [])) of
        Inl e \<Rightarrow> (mk_property k (mk_string s),
                  log @ [Call (JStr k) (json_quote (single_quotes s)) m (or_empty fp) (JStr [])], Some e)
      | Inr cn \<Rightarrow> (mk_property k (mk_string (if cn = [] then s else cn)),
                   log @ [Call (JStr k) (json_quote (single_quotes s)) m (or_empty fp) (JStr [])], None))"
  by (simp add: property_step_def string_step_def engine_args_def isType_def mk_property_def
      mk_identifier_def mk_string_def get_Cons split: sum.splits)

lemma nested_step_mk_string:
  "nested_step eng m fp pseudo (mk_property k (mk_string s)) log
   = (case eng log (Call (JStr k) (json_quote (single_quotes s)) m (or_empty fp) pseudo) of
        Inl e \<Rightarrow> (mk_property k (mk_string s),
                  log @ [Call (JStr k) (json_quote (single_quotes s)) m (or_empty fp) pseudo], Some e)
      | Inr cn \<Rightarrow> (mk_property k (mk_string (if cn = [] then s else cn)),
                   log @ [Call (JStr k) (json_quote (single_quotes s)) m (or_empty fp) pseudo], None))"
  by (simp add: nested_step_def string_step_def engine_args_def isType_def mk_property_def
      mk_identifier_def mk_string_def get_Cons split: sum.splits)


lemma property_step_mk_object:
  "property_step eng m fp (mk_property k (mk_object nps)) log
   = (case loop_props (nested_step eng m fp (JStr k)) nps log of
        (nps', log', r) \<Rightarrow> (mk_property k (mk_object nps'), log', r))"
  by (simp add: property_step_def isType_def mk_property_def mk_identifier_def mk_object_def
      get_Cons loop_over_def split: prod.splits)

lemmas builder_steps = walk_mk_object generatesAlchemy_mk_object property_step_mk_string
  nested_step_mk_string property_step_mk_object

section \<open>The walk as a fold over the order of visits\<close>

termination walk_order
proof (relation "inv_image (mult {(x, y). x < y})
    (\<lambda>(r, stack). mset (map (\<lambda>p. size (get r p)) stack))", goal_cases)
  case 1
  show ?case by (intro wf_inv_image wf_mult wf_less)
next
  case (2 r p stack)
  have small: "size (get r (p @ [k])) < size (get r p)"
    if "k \<in> set (kids (get r p))" for k
    using kids_size[OF that] by (simp add: get_append)
  have "(mset (map (\<lambda>q. size (get r q)) stack)
          + mset (map (\<lambda>q. size (get r q)) (rev (map (\<lambda>k. p @ [k]) (kids (get r p))))),
         mset (map (\<lambda>q. size (get r q)) stack) + {#size (get r p)#})
        \<in> mult {(x, y). x < y}"
    by (rule one_step_implies_mult) (auto dest: small)
  then show ?case by (simp add: add.commute)
qed

lemma kids_get_skeleton:
  assumes "skeleton e a = skeleton e b"
  shows "kids (get a p) = kids (get b p)"
proof (cases "is_object (get a p)")
  case True
  then show ?thesis using get_skeleton(2)[OF assms, of p] by (auto intro: kids_skeleton)
next
  case False
  then show ?thesis using get_skeleton(1)[OF assms, of p] by (simp add: kids_leaf)
qed

lemma walk_order_skeleton:
  "skeleton e a = skeleton e b \<Longrightarrow> walk_order a stack = walk_order b stack"
proof (induction a stack rule: walk_order.induct)
  case (1 r)
  then show ?case by simp
next
  case (2 r p stack)
  then show ?case using kids_get_skeleton[OF 2(2), of p] by simp
qed

lemma walk_loop_fold:
  "walk_loop eng m fp w stack = foldl (\<lambda>w p. visit eng m fp p w) w (walk_order (root w) stack)"
proof (induction eng m fp w stack rule: walk_loop.induct)
  case (1 eng m fp w)
  then show ?case by simp
next
  case (2 eng m fp w p stack)
  let ?w' = "visit eng m fp p w"
  have sk: "skeleton True (root ?w') = skeleton True (root w)" by (rule visit_skeleton)
  have k: "kids (get (root ?w') p) = kids (get (root w) p)" using sk by (rule kids_get_skeleton)
  have o: "walk_order (root ?w') st = walk_order (root w) st" for st using sk by (rule walk_order_skeleton)
  show ?case using 2[OF refl] by (simp add: Let_def k o)
qed

lemma visited_foldl:
  "visited (foldl (\<lambda>w p. visit eng m fp p w) w ps) = visited w @ ps"
  by (induction ps arbitrary: w) (auto simp: visit_def split: prod.splits)

lemma walk_order_append:
  "walk_order r (s1 @ s2) = walk_order r s1 @ walk_order r s2"
proof (induction r s1 rule: walk_order.induct)
  case (1 r)
  then show ?case by simp
next
  case (2 r p stack)
  then show ?case by simp
qed

lemma walk_order_prefix:
  "q \<in> set (walk_order r stack) \<Longrightarrow> \<exists>p \<in> set stack. prefix p q"
proof (induction r stack rule: walk_order.induct)
  case (1 r)
  then show ?case by simp
next
  case (2 r p stack)
  show ?case
  proof (cases "q = p")
    case True
    then show ?thesis by auto
  next
    case False
    then have "q \<in> set (walk_order r (rev (map (\<lambda>k. p @ [k]) (kids (get r p))) @ stack))"
      using 2(2) by simp
    from 2(1)[OF this] obtain p' where p': "p' \<in> set (rev (map (\<lambda>k. p @ [k]) (kids (get r p))) @ stack)" "prefix p' q"
      by blast
    then show ?thesis by (auto dest: append_prefixD)
  qed
qed

lemma stack_subset_walk_order: "set stack \<subseteq> set (walk_order r stack)"
proof (induction r stack rule: walk_order.induct)
  case (1 r)
  then show ?case by simp
next
  case (2 r p stack)
  then show ?case by auto
qed


lemma walk_order_closed:
  "q \<in> set (walk_order r stack) \<Longrightarrow> k \<in> set (kids (get r q)) \<Longrightarrow> q @ [k] \<in> set (walk_order r stack)"
proof (induction r stack rule: walk_order.induct)
  case (1 r)
  then show ?case by simp
next
  case (2 r p stack)
  show ?case
  proof (cases "q = p")
    case True
    then have "q @ [k] \<in> set (rev (map (\<lambda>k. p @ [k]) (kids (get r p))) @ stack)"
      using 2(3) by simp
    then show ?thesis using stack_subset_walk_order[of "rev (map (\<lambda>k. p @ [k]) (kids (get r p))) @ stack" r]
      by auto
  next
    case False
    then show ?thesis using 2 by auto
  qed
qed

lemma wf_js_get: "wf_js r \<Longrightarrow> wf_js (get r p)"
proof (induction p arbitrary: r)
  case Nil
  then show ?case by simp
next
  case (Cons k ks)
  show ?case
  proof (cases r)
    case (JObj fs)
    then show ?thesis using Cons
      by (cases k) (auto simp: get_Cons split: option.splits dest!: map_of_SomeD)
  next
    case (JArr xs)
    then show ?thesis using Cons by (cases k) (auto simp: get_Cons)
  next
    case (JStr s)
    then show ?thesis using Cons by (cases k) (auto simp: get_Cons)
  qed (simp_all add: get_Cons)
qed

lemma distinct_js_keys: "wf_js v \<Longrightarrow> distinct (js_keys v)"
  by (cases v) (auto simp: distinct_map inj_on_def)

lemma distinct_kids: "wf_js v \<Longrightarrow> distinct (kids v)"
  by (simp add: kids_def distinct_js_keys)

lemma distinct_walk_order:
  "wf_js r \<Longrightarrow> distinct stack \<Longrightarrow> (\<forall>p \<in> set stack. \<forall>q \<in> set stack. prefix p q \<longrightarrow> p = q) \<Longrightarrow>
   distinct (walk_order r stack)"
proof (induction r stack rule: walk_order.induct)
  case (1 r)
  then show ?case by simp
next
  case (2 r p stack)
  let ?new = "rev (map (\<lambda>k. p @ [k]) (kids (get r p)))"
  have pn: "p \<notin> set stack" using 2(3) by simp
  have anti: "\<And>x y. x \<in> set stack \<Longrightarrow> y \<in> set stack \<Longrightarrow> prefix x y \<Longrightarrow> x = y"
    and antip: "\<And>y. y \<in> set stack \<Longrightarrow> \<not> prefix p y" "\<And>y. y \<in> set stack \<Longrightarrow> \<not> prefix y p"
    using 2(4) pn by auto
  have dn: "distinct ?new"
    using distinct_kids[OF wf_js_get[OF 2(2)], of p] by (simp add: distinct_map inj_on_def)
  have disj: "set ?new \<inter> set stack = {}"
    using antip(1) by (auto simp: prefix_def)
  have a: "p \<notin> set (walk_order r (?new @ stack))"
  proof
    assume "p \<in> set (walk_order r (?new @ stack))"
    then obtain p' where "p' \<in> set (?new @ stack)" "prefix p' p" by (blast dest: walk_order_prefix)
    then show False using antip(2) by (auto simp: prefix_def)
  qed
  have b: "\<forall>x \<in> set (?new @ stack). \<forall>y \<in> set (?new @ stack). prefix x y \<longrightarrow> x = y"
  proof (intro ballI impI)
    fix x y assume x: "x \<in> set (?new @ stack)" and y: "y \<in> set (?new @ stack)" and xy: "prefix x y"
    show "x = y"
    proof (cases "x \<in> set stack")
      case True
      show ?thesis
      proof (cases "y \<in> set stack")
        case True
        then show ?thesis using anti \<open>x \<in> set stack\<close> xy by blast
      next
        case False
        then obtain k where "y = p @ [k]" using y by auto
        then have "x = p @ [k] \<or> prefix x p" using xy by (simp add: prefix_snoc)
        then show ?thesis using antip True \<open>y = p @ [k]\<close> by auto
      qed
    next
      case False
      then obtain k where xk: "x = p @ [k]" using x by auto
      show ?thesis
      proof (cases "y \<in> set stack")
        case True
        then show ?thesis using antip(1)[OF True] xy xk by (auto dest: append_prefixD)
      next
        case False
        then obtain k' where "y = p @ [k']" using y by auto
        then show ?thesis using xk xy by (simp add: prefix_def)
      qed
    qed
  qed
  have "distinct (walk_order r (?new @ stack))"
    using 2(1)[OF 2(2)] dn disj 2(3) b by simp
  then show ?case using a by simp
qed

lemma pushed_reach:
  "pushed node k = (is_object (get node [k]) \<and> \<not> (isType ''ObjectExpression'' node \<and> is_array (get node [k])))"
  by (auto simp: pushed_def Let_def isType_get truthy_object)

lemma walk_order_reach_subset:
  "set stack \<subseteq> reach r \<Longrightarrow> set (walk_order r stack) \<subseteq> reach r"
proof (induction r stack rule: walk_order.induct)
  case (1 r)
  then show ?case by simp
next
  case (2 r p stack)
  have "p @ [k] \<in> reach r" if "k \<in> set (kids (get r p))" for k
  proof (rule reach.reach_child)
    show "p \<in> reach r" using 2(2) by simp
    show "k \<in> set (js_keys (get r p))" using that by (simp add: kids_def)
    have "pushed (get r p) k" using that by (simp add: kids_def)
    then show "is_object (get r (p @ [k]))"
      and "\<not> (isType ''ObjectExpression'' (get r p) \<and> is_array (get r (p @ [k])))"
      by (simp_all add: pushed_reach get_append)
  qed
  then have "set (rev (map (\<lambda>k. p @ [k]) (kids (get r p))) @ stack) \<subseteq> reach r"
    using 2(2) by auto
  from 2(1)[OF this] show ?case using 2(2) by simp
qed

lemma reach_walk_order: "p \<in> reach r \<Longrightarrow> p \<in> set (walk_order r [[]])"
proof (induction rule: reach.induct)
  case reach_root
  then show ?case by simp
next
  case (reach_child p k)
  then have "k \<in> set (kids (get r p))"
    by (simp add: kids_def pushed_reach get_append)
  then show ?case using reach_child.IH by (rule walk_order_closed[rotated])
qed

lemma walk_order_reach: "set (walk_order r [[]]) = reach r"
  using walk_order_reach_subset[of "[[]]" r] reach_walk_order[of _ r]
  by (auto intro: reach.reach_root)

lemma walkThroughOutAst_fold:
  "walkThroughOutAst eng m fp r st
   = foldl (\<lambda>w p. visit eng m fp p w) \<lparr>root = r, w_calls = fst st, w_errors = snd st, visited = []\<rparr>
       (walk_order r [[]])"
  by (simp add: walkThroughOutAst_def walk_loop_fold del: walk_loop.simps walk_order.simps)

lemma visited_walk: "visited (walkThroughOutAst eng m fp r st) = walk_order r [[]]"
  by (simp add: walkThroughOutAst_fold visited_foldl del: walk_order.simps)


lemma getpath_put_other:
  "k1 \<noteq> k2 \<Longrightarrow>
   getpath (put v (c @ Fld k1 # r1) w) (c @ Fld k2 # r2) = getpath v (c @ Fld k2 # r2)"
proof (induction c arbitrary: v)
  case Nil
  then show ?case by (cases v) (auto split: option.splits simp: update_conv')
next
  case (Cons x c)
  show ?case
  proof (cases v)
    case (JObj fs)
    then show ?thesis using Cons by (cases x) (auto split: option.splits simp: update_conv')
  next
    case (JArr xs)
    then show ?thesis using Cons by (cases x) auto
  qed (cases x; simp)+
qed

lemma test_path_split:
  "consequent_path = [Fld ''value'', Fld ''expressions'', Idx 0] @ Fld ''consequent'' # [Fld ''value'']"
  "alternate_path = [Fld ''value'', Fld ''expressions'', Idx 0] @ Fld ''alternate'' # [Fld ''value'']"
  by (simp_all add: consequent_path_def alternate_path_def)

lemma test_untouched:
  "getpath (put v consequent_path w) test_path = getpath v test_path"
  "getpath (put v alternate_path w) test_path = getpath v test_path"
  "getpath (put v consequent_path w) alternate_path = getpath v alternate_path"
  "getpath (put v alternate_path w) consequent_path = getpath v consequent_path"
  using getpath_put_other[of "''consequent''" "''test''" v "[Fld ''value'', Fld ''expressions'', Idx 0]" "[Fld ''value'']" w "[]"]
    getpath_put_other[of "''alternate''" "''test''" v "[Fld ''value'', Fld ''expressions'', Idx 0]" "[Fld ''value'']" w "[]"]
    getpath_put_other[of "''consequent''" "''alternate''" v "[Fld ''value'', Fld ''expressions'', Idx 0]" "[Fld ''value'']" w "[Fld ''value'']"]
    getpath_put_other[of "''alternate''" "''consequent''" v "[Fld ''value'', Fld ''expressions'', Idx 0]" "[Fld ''value'']" w "[Fld ''value'']"]
  by (simp_all add: consequent_path_def alternate_path_def test_path_def del: getpath.simps put.simps)

lemma ternary_step_test:
  "getpath (fst (ternary_step eng m fp pseudo p log)) test_path = getpath p test_path"
  unfolding ternary_step_def
  by (auto split: sum.splits simp: Let_def test_untouched simp del: getpath.simps put.simps)

lemma put_consequent_read:
  "getpath p consequent_path = Inr (JStr a) \<Longrightarrow> getpath (put p consequent_path w) consequent_path = Inr w"
  using getpath_put_same[of p "[Fld ''value'', Fld ''expressions'', Idx 0, Fld ''consequent'']" "''value''" a w]
  by (simp add: consequent_path_def del: getpath.simps put.simps)

lemma put_alternate_read:
  "getpath p alternate_path = Inr (JStr a) \<Longrightarrow> getpath (put p alternate_path w) alternate_path = Inr w"
  using getpath_put_same[of p "[Fld ''value'', Fld ''expressions'', Idx 0, Fld ''alternate'']" "''value''" a w]
  by (simp add: alternate_path_def del: getpath.simps put.simps)

lemma put_cooked_read:
  "getpath p cooked_path = Inr (JStr a) \<Longrightarrow> getpath (put p cooked_path w) cooked_path = Inr w"
  using getpath_put_same[of p "[Fld ''value'', Fld ''quasis'', Idx 0, Fld ''value'']" "''cooked''" a w]
  by (simp add: cooked_path_def del: getpath.simps put.simps)

section \<open>The exclusion entries\<close>

lemma str_includes_single: "str_includes s [c] = (c \<in> set s)"
  by (induction s) auto

lemma starts_with_mem: "starts_with (c # x) s \<Longrightarrow> c \<in> set s"
  by (cases s) auto

lemma str_includes_mem: "str_includes s (c # x) \<Longrightarrow> c \<in> set s"
  by (induction s) (auto dest: starts_with_mem)

lemma expand_item_string:
  "expand_item (JStr s)
   = Inr (JStr (if CHR ''/'' \<notin> set s \<and> CHR ''.'' \<notin> set s then s @ ''/**'' else s))"
  using str_includes_mem[of s "CHR ''.''" "''/''"]
  by (auto simp: expand_item_def str_includes_single)

lemma map_items_strings:
  "map_items (map JStr es)
   = Inr (map (\<lambda>s. JStr (if CHR ''/'' \<notin> set s \<and> CHR ''.'' \<notin> set s then s @ ''/**'' else s)) es)"
  by (induction es) (simp_all add: expand_item_string)

lemma starts_with_iff: "starts_with x s = (\<exists>b. s = x @ b)"
  by (induction x s rule: starts_with.induct) auto

lemma str_includes_iff: "str_includes s x = (\<exists>a b. s = a @ x @ b)"
proof (induction s)
  case Nil
  then show ?case by auto
next
  case (Cons c s)
  show ?case
  proof
    assume "str_includes (c # s) x"
    then consider "starts_with x (c # s)" | "str_includes s x" by auto
    then show "\<exists>a b. c # s = a @ x @ b"
    proof cases
      case 1
      then obtain b where "c # s = x @ b" by (auto simp: starts_with_iff)
      then have "c # s = [] @ x @ b" by simp
      then show ?thesis by blast
    next
      case 2
      then obtain a b where "s = a @ x @ b" using Cons.IH by auto
      then have "c # s = (c # a) @ x @ b" by simp
      then show ?thesis by blast
    qed
  next
    assume "\<exists>a b. c # s = a @ x @ b"
    then obtain a b where ab: "c # s = a @ x @ b" by blast
    show "str_includes (c # s) x"
    proof (cases a)
      case Nil
      then have "starts_with x (c # s)" using ab by (auto simp: starts_with_iff)
      then show ?thesis by simp
    next
      case (Cons d a')
      then have "s = a' @ x @ b" using ab by simp
      then have "str_includes s x" using Cons.IH by blast
      then show ?thesis by simp
    qed
  qed
qed

lemma excludePath_strings:
  "excludePath resolve (JArr (map JStr es)) (Some f)
   = Inr (\<exists>e \<in> set es. \<exists>a b. f = a @ resolve e @ b)"
  by (induction es) (auto simp: excludePath_def str_includes_iff)

lemma list_ex_patterns:
  "list_ex (\<lambda>i. case i of JStr pat \<Rightarrow> gmatch pat f | _ \<Rightarrow> False) (map JStr pats)
   = (\<exists>pat \<in> set pats. gmatch pat f)"
  by (induction pats) auto

lemma list_all_patterns: "list_all is_pattern (map JStr pats)"
  by (induction pats) auto

lemma selected_paths_strings:
  assumes "get cfg [Fld ''exclude''] = JArr (map JStr es)"
  shows "selected_paths gmatch files cfg
          = Inr (filter (\<lambda>f. gmatch ''**/*.{js,jsx,ts,tsx}'' f
                   \<and> \<not> (\<exists>pat \<in> set ([''node_modules/**'', ''**/*.{config.js,config.ts}'', ''**/*.{.}'']
                        @ map (\<lambda>s. if CHR ''/'' \<notin> set s \<and> CHR ''.'' \<notin> set s then s @ ''/**'' else s) es).
                          gmatch pat f)
                   \<and> (f = [] \<or> hd f \<noteq> CHR ''.'')) files)"
proof -
  define pats where "pats = [''node_modules/**'', ''**/*.{config.js,config.ts}'', ''**/*.{.}'']
      @ map (\<lambda>s. if CHR ''/'' \<notin> set s \<and> CHR ''.'' \<notin> set s then s @ ''/**'' else s) es"
  have ig: "ignore_list (get cfg [Fld ''exclude'']) = Inr (map JStr pats)"
    by (simp add: assms ignore_list_def map_items_strings comp_def pats_def)
  have d: "(case p of [] \<Rightarrow> True | c # cs \<Rightarrow> c \<noteq> CHR ''.'') = (p = [] \<or> hd p \<noteq> CHR ''.'')" for p :: string
    by (cases p) auto
  have g: "glob gmatch files ''**/*.{js,jsx,ts,tsx}'' (map JStr pats)
      = Inr (filter (\<lambda>f. gmatch ''**/*.{js,jsx,ts,tsx}'' f \<and> \<not> (\<exists>pat \<in> set pats. gmatch pat f)) files)"
    unfolding glob_def by (simp only: list_all_patterns list_ex_patterns if_True)
  have "selected_paths gmatch files cfg
      = Inr (filter (\<lambda>f. gmatch ''**/*.{js,jsx,ts,tsx}'' f \<and> \<not> (\<exists>pat \<in> set pats. gmatch pat f)
                \<and> (f = [] \<or> hd f \<noteq> CHR ''.'')) files)"
  proof -
    have d': "case_list True (\<lambda>c cs. c \<noteq> CHR ''.'') = (\<lambda>p :: string. p = [] \<or> hd p \<noteq> CHR ''.'')"
      by (rule ext) (simp split: list.splits)
    have "selected_paths gmatch files cfg
        = Inr (filter (\<lambda>p. p = [] \<or> hd p \<noteq> CHR ''.'')
          (filter (\<lambda>f. gmatch ''**/*.{js,jsx,ts,tsx}'' f \<and> \<not> (\<exists>pat \<in> set pats. gmatch pat f)) files))"
      by (simp add: selected_paths_def ig g d')
    also have "\<dots> = Inr (filter (\<lambda>f. gmatch ''**/*.{js,jsx,ts,tsx}'' f \<and> \<not> (\<exists>pat \<in> set pats. gmatch pat f)
                \<and> (f = [] \<or> hd f \<noteq> CHR ''.'')) files)"
      by (auto intro: filter_cong)
    finally show ?thesis .
  qed
  then show ?thesis unfolding pats_def .
qed

section \<open>Call sites with one fingerprint\<close>






section \<open>Counting the engine calls\<close>




lemma nothing_counts:
  "\<exists>new. log = log @ new \<and> (\<forall>c \<in> set new. arg_path c = or_empty fp) \<and> length new \<le> n"
  by (rule exI[of _ "[]"]) simp






















section \<open>The example call sites\<close>



lemma the_body_example [simp]: "the_body (example_site f body) = body"
  by (simp add: the_body_def example_site_def)

lemma src_filename_example [simp]: "src_filename (example_site f body) = Some f"
  by (simp add: example_site_def)









section \<open>Runs of the plugin\<close>

lemma parse_site_reads:
  "filename (fst (parse_site s g)) = src_filename s"
  "callee (fst (parse_site s g)) = src_callee s"
  "calls (snd (parse_site s g)) = calls g"
  "errors (snd (parse_site s g)) = errors g"
  "usedObjects (snd (parse_site s g)) = usedObjects g"
  "transformedNodes (snd (parse_site s g)) = transformedNodes g"
  by (simp_all add: parse_site_def split: option.splits prod.splits)

lemma body_of_parse: "body_of (snd (parse_site s g)) (fst (parse_site s g)) = src_body s"
  by (simp add: parse_site_def body_of_def src_body_def deref_def split: option.splits prod.splits)

lemma run_plugin_single:
  "run_plugin hash resolve eng cfg [s] g
   = ([fst (CallExpression hash resolve eng cfg (fst (parse_site s g)) (snd (parse_site s g)))],
      snd (CallExpression hash resolve eng cfg (fst (parse_site s g)) (snd (parse_site s g))))"
  by (simp split: prod.splits)

lemma run_excluded:
  assumes "excludePath resolve (get cfg [Fld ''exclude'']) (src_filename s) = Inr True"
  shows "run_plugin hash resolve eng cfg [s] g = ([fst (parse_site s g)], snd (parse_site s g))"
proof -
  have "CallExpression hash resolve eng cfg (fst (parse_site s g)) (snd (parse_site s g))
      = (fst (parse_site s g), snd (parse_site s g))"
    using assms by (simp add: CallExpression_def parse_site_reads)
  then show ?thesis by (simp add: run_plugin_single del: run_plugin.simps)
qed

section \<open>Reads that throw\<close>

lemma getprop_error: "getprop v k = Inl e \<Longrightarrow> e = TypeError"
  by (cases "(v, k)" rule: getprop.cases) auto

lemma getpath_error: "getpath v p = Inl e \<Longrightarrow> e = TypeError"
  by (induction p arbitrary: v) (auto split: sum.splits dest: getprop_error)

lemma replaceAll_quotes_error: "replaceAll_quotes v = Inl e \<Longrightarrow> e = TypeError"
  by (cases v) auto

lemma replaceAll_quotes_no_string: "(\<And>t. v \<noteq> JStr t) \<Longrightarrow> replaceAll_quotes v = Inl TypeError"
  by (cases v) auto

lemma engine_args_error: "engine_args m fp pseudo path p = Inl e \<Longrightarrow> e = TypeError"
  by (auto simp: engine_args_def split: sum.splits dest: getpath_error replaceAll_quotes_error
      simp del: getpath.simps)

lemma engine_args_no_string:
  assumes "\<And>t. getpath p path \<noteq> Inr (JStr t)"
  shows "engine_args m fp pseudo path p = Inl TypeError"
proof (cases "engine_args m fp pseudo path p")
  case (Inl e)
  then show ?thesis using engine_args_error by blast
next
  case (Inr c)
  then obtain v where "getpath p path = Inr v" "replaceAll_quotes v \<noteq> Inl TypeError"
    by (auto simp: engine_args_def split: sum.splits simp del: getpath.simps)
  then show ?thesis using assms replaceAll_quotes_no_string[of v] by (cases v) auto
qed

section \<open>The walk over the example block\<close>

lemma visit_unfold:
  "(\<lambda>w p. visit eng m fp p w)
   = (\<lambda>w p. case generatesAlchemy eng m fp (get (root w) p) (w_calls w, w_errors w) of
        (node', log', errs') \<Rightarrow>
          \<lparr>root = put (root w) p node', w_calls = log', w_errors = errs', visited = visited w @ [p]\<rparr>)"
  by (intro ext) (simp add: visit_def)

lemma walk_example_block:
  "walkThroughOutAst mock_engine m fp example_block (log, errs)
   = \<lparr>root = JObj [(''type'', JStr ''BlockStatement''),
           (''body'', JArr [JObj [(''type'', JStr ''ReturnStatement''),
                                  (''argument'', mk_object [mk_property ''bgd'' (mk_string ''bgd_\"red\"''),
                       mk_property ''Hover'' (mk_object [mk_property ''color'' (mk_string ''color_\"blue\"'')])]),
                                  (''loc'', JObj [(''start'', JNum 3), (''end'', JNum 60)])]]),
           (''directives'', JArr [])],
      w_calls = log @ [Call (JStr ''bgd'') ''\"red\"'' m (or_empty fp) (JStr []),
                   Call (JStr ''color'') ''\"blue\"'' m (or_empty fp) (JStr ''Hover'')],
      w_errors = errs,
      visited = [[], [Fld ''directives''], [Fld ''body''], [Fld ''body'', Idx 0],
                 [Fld ''body'', Idx 0, Fld ''loc''], [Fld ''body'', Idx 0, Fld ''argument'']]\<rparr>"
  by (simp add: walkThroughOutAst_def example_block_def scenario_def visit_def Let_def
      generatesAlchemy_def loop_over_def property_step_def nested_step_def string_step_def engine_args_def
      kids_def pushed_def isType_def get_Cons mk_object_def mk_property_def mk_string_def mk_identifier_def
      mock_engine_def json_quote_def single_quotes_def)

section \<open>The JSON text of a string\<close>

lemma json_escape_plain:
  "c \<noteq> CHR 0x22 \<Longrightarrow> c \<noteq> CHR 0x5C \<Longrightarrow> 32 \<le> (of_char c :: nat) \<Longrightarrow> json_escape c = [c]"
  by auto

lemma json_quote_plain:
  assumes "\<forall>c \<in> set t. c \<noteq> CHR 0x22 \<and> c \<noteq> CHR 0x5C \<and> 32 \<le> (of_char c :: nat)"
  shows "json_quote t = [CHR 0x22] @ t @ [CHR 0x22]"
proof -
  have "concat (map json_escape t) = t"
    using assms by (induction t) (simp_all add: json_escape_plain del: json_escape.simps)
  then show ?thesis by (simp add: json_quote_def)
qed

section \<open>The claims\<close>

text \<open>
  C10. When \<open>galadriel.json\<close> is absent, cannot be read or is not JSON, \<open>parseConfig\<close>
  returns an empty array. Destructuring it gives \<open>exclude = undefined\<close> and
  \<open>module = undefined\<close>; the exclusion check of the visitor then throws a TypeError at
  every call expression, the visitor catches and prints it, and leaves the call site and
  the state of the module as they were: in a whole run the engine is never called, the
  cache stays as it was, and every callback body is still the one the parser made.
\<close>

theorem missing_configuration:
  assumes "file = Absent \<or> file = Unreadable \<or> (\<exists>txt. file = Content txt \<and> json_parse txt = None)"
  shows "fst (parseConfig json_parse file) = JArr []
    \<and> get (fst (parseConfig json_parse file)) [Fld ''exclude''] = JUndef
    \<and> get (fst (parseConfig json_parse file)) [Fld ''module''] = JUndef
    \<and> excludePath resolve (get (fst (parseConfig json_parse file)) [Fld ''exclude'']) (filename site)
        = Inl TypeError
    \<and> CallExpression hash resolve eng (fst (parseConfig json_parse file)) site g
        = (site, g\<lparr>errors := errors g @ [TypeError]\<rparr>)
    \<and> calls (snd (run_plugin hash resolve eng (fst (parseConfig json_parse file)) sites g)) = calls g
    \<and> transformedNodes (snd (run_plugin hash resolve eng (fst (parseConfig json_parse file)) sites g))
        = transformedNodes g
    \<and> map (body_of (snd (run_plugin hash resolve eng (fst (parseConfig json_parse file)) sites g)))
          (fst (run_plugin hash resolve eng (fst (parseConfig json_parse file)) sites g))
        = map src_body sites"
proof -
  have c: "fst (parseConfig json_parse file) = JArr []"
    using assms by (auto simp: parseConfig_def)
  obtain sites' g' where r: "run_plugin hash resolve eng (JArr []) sites g = (sites', g')"
    by (cases "run_plugin hash resolve eng (JArr []) sites g")
  show ?thesis
    using run_plugin_no_config[OF r] r
    by (simp add: c CallExpression_def get_Cons excludePath_def)
qed

text \<open>The file is absent; two call sites of \<open>craftingStyles\<close> in two files stay as parsed.\<close>

theorem missing_configuration_witness:
  "fst (parseConfig (\<lambda>txt. None) Absent) = JArr []
   \<and> calls (snd (run_plugin (\<lambda>txt a b. txt) (\<lambda>x. ''/p/'' @ x) mock_engine
        (fst (parseConfig (\<lambda>txt. None) Absent))
        [example_site ''/p/a.js'' scenario, example_site ''/p/b.js'' scenario] initial)) = []
   \<and> map (body_of (snd (run_plugin (\<lambda>txt a b. txt) (\<lambda>x. ''/p/'' @ x) mock_engine
        (fst (parseConfig (\<lambda>txt. None) Absent))
        [example_site ''/p/a.js'' scenario, example_site ''/p/b.js'' scenario] initial)))
       (fst (run_plugin (\<lambda>txt a b. txt) (\<lambda>x. ''/p/'' @ x) mock_engine
        (fst (parseConfig (\<lambda>txt. None) Absent))
        [example_site ''/p/a.js'' scenario, example_site ''/p/b.js'' scenario] initial))
     = [Some scenario, Some scenario]"
proof -
  have h: "Absent = Absent \<or> Absent = Unreadable \<or> (\<exists>txt. Absent = Content txt \<and> (\<lambda>txt. None) txt = None)"
    by simp
  have s: "src_body (example_site f scenario) = Some scenario" for f
    by (simp add: src_body_def example_site_def scenario_def mk_object_def)
  have i: "calls initial = []" by (simp add: initial_def)
  show ?thesis
    using missing_configuration[OF h, where resolve = "\<lambda>x. ''/p/'' @ x" and hash = "\<lambda>txt a b. txt"
        and eng = mock_engine and g = initial and site = "\<lparr>filename = None, callee = JUndef, callback = None\<rparr>"
        and sites = "[example_site ''/p/a.js'' scenario, example_site ''/p/b.js'' scenario]"]
    by (clarsimp simp: s i simp del: run_plugin.simps)
qed







text \<open>
  C6. For a string-literal property the engine is called with the name of the key, the
  JSON text of the value with its double quotes turned into single ones, the module flag,
  the file path (or the empty string) and the pseudo-group: the empty string for a
  property of the style object, and the name of the enclosing key for a property of an
  object literal that is the value of that key (the enclosing property hands its key down
  to the loop over the nested properties). The value argument is the value with every
  double quote replaced by a single quote and nothing else changed, between two double
  quotes, with a backslash before each backslash and the control characters written as
  JSON escapes; so \<open>say "hi"\<close> is sent as \<open>"say 'hi'"\<close>. The value of the literal
  becomes the class name when the engine returns a non-empty one and stays as it is
  otherwise. The scenario \<open>{ bgd: "red", Hover: { color: "blue" } }\<close> with the engine
  \<open>prop + "_" + val\<close> gives \<open>{ bgd: "bgd_\"red\"", Hover: { color: "color_\"blue\"" } }\<close>.
\<close>

theorem engine_arguments:
  "(getprop p (Fld ''key'') = Inr k \<longrightarrow> isType ''Identifier'' k \<longrightarrow>
    getpath p [Fld ''value'', Fld ''type''] = Inr (JStr ''StringLiteral'') \<longrightarrow>
    getpath p [Fld ''value'', Fld ''value''] = Inr (JStr s) \<longrightarrow>
      property_step eng m fp p log =
        (case eng log (Call (get k [Fld ''name'']) (json_quote (single_quotes s)) m (or_empty fp) (JStr [])) of
           Inl e \<Rightarrow> (p, log @ [Call (get k [Fld ''name'']) (json_quote (single_quotes s)) m (or_empty fp) (JStr [])], Some e)
         | Inr className \<Rightarrow>
             (if className = [] then p else put p [Fld ''value'', Fld ''value''] (JStr className),
              log @ [Call (get k [Fld ''name'']) (json_quote (single_quotes s)) m (or_empty fp) (JStr [])], None)))
   \<and> (getprop q (Fld ''key'') = Inr kq \<longrightarrow> isType ''Identifier'' kq \<longrightarrow>
      getpath q [Fld ''value'', Fld ''type''] = Inr (JStr ''ObjectExpression'') \<longrightarrow>
      getpath q [Fld ''value'', Fld ''properties''] = Inr (JArr nps) \<longrightarrow>
        property_step eng m fp q log =
          (case loop_props (nested_step eng m fp (get kq [Fld ''name''])) nps log of
             (nps', log', r) \<Rightarrow> (put q [Fld ''value'', Fld ''properties''] (JArr nps'), log', r)))
   \<and> (getpath np [Fld ''value'', Fld ''type''] = Inr (JStr ''StringLiteral'') \<longrightarrow>
      getpath np [Fld ''key'', Fld ''name''] = Inr n \<longrightarrow>
      getpath np [Fld ''value'', Fld ''value''] = Inr (JStr t) \<longrightarrow>
        nested_step eng m fp pseudo np log =
          (case eng log (Call n (json_quote (single_quotes t)) m (or_empty fp) pseudo) of
             Inl e \<Rightarrow> (np, log @ [Call n (json_quote (single_quotes t)) m (or_empty fp) pseudo], Some e)
           | Inr className \<Rightarrow>
               (if className = [] then np else put np [Fld ''value'', Fld ''value''] (JStr className),
                log @ [Call n (json_quote (single_quotes t)) m (or_empty fp) pseudo], None)))
   \<and> (getpath p [Fld ''value'', Fld ''value''] = Inr (JStr s) \<longrightarrow>
        getpath (put p [Fld ''value'', Fld ''value''] (JStr className)) [Fld ''value'', Fld ''value'']
          = Inr (JStr className))
   \<and> root (walkThroughOutAst mock_engine m fp scenario (log, errs))
        = mk_object [mk_property ''bgd'' (mk_string (''bgd_'' @ [CHR 0x22] @ ''red'' @ [CHR 0x22])),
                     mk_property ''Hover'' (mk_object
                       [mk_property ''color'' (mk_string (''color_'' @ [CHR 0x22] @ ''blue'' @ [CHR 0x22]))])]
   \<and> w_calls (walkThroughOutAst mock_engine m fp scenario (log, errs))
        = log @ [Call (JStr ''bgd'') ([CHR 0x22] @ ''red'' @ [CHR 0x22]) m (or_empty fp) (JStr []),
                 Call (JStr ''color'') ([CHR 0x22] @ ''blue'' @ [CHR 0x22]) m (or_empty fp) (JStr ''Hover'')]
   \<and> length (single_quotes s) = length s
   \<and> (\<forall>i < length s. single_quotes s ! i = (if s ! i = CHR 0x22 then CHR 0x27 else s ! i))
   \<and> CHR 0x22 \<notin> set (single_quotes s)
   \<and> json_quote (a @ b) = [CHR 0x22] @ concat (map json_escape a) @ concat (map json_escape b) @ [CHR 0x22]
   \<and> ((\<forall>c \<in> set t. c \<noteq> CHR 0x22 \<and> c \<noteq> CHR 0x5C \<and> 32 \<le> (of_char c :: nat)) \<longrightarrow>
        json_quote t = [CHR 0x22] @ t @ [CHR 0x22])
   \<and> json_escape (CHR 0x5C) = [CHR 0x5C, CHR 0x5C]
   \<and> json_escape (CHR 0x22) = [CHR 0x5C, CHR 0x22]
   \<and> json_escape (CHR 0x0A) = [CHR 0x5C, CHR ''n'']
   \<and> json_escape (CHR 0x09) = [CHR 0x5C, CHR ''t'']
   \<and> json_escape (CHR 0x01) = [CHR 0x5C, CHR ''u'', CHR ''0'', CHR ''0'', CHR ''0'', CHR ''1'']
   \<and> property_step eng m fp
         (mk_property ''content'' (mk_string (''say '' @ [CHR 0x22] @ ''hi'' @ [CHR 0x22] @ [CHR 0x5C, CHR 0x0A]))) log
       = (case eng log (Call (JStr ''content'')
                 ([CHR 0x22] @ ''say '' @ [CHR 0x27] @ ''hi'' @ [CHR 0x27] @ [CHR 0x5C, CHR 0x5C, CHR 0x5C, CHR ''n'']
                    @ [CHR 0x22]) m (or_empty fp) (JStr [])) of
            Inl e \<Rightarrow>
              (mk_property ''content'' (mk_string (''say '' @ [CHR 0x22] @ ''hi'' @ [CHR 0x22] @ [CHR 0x5C, CHR 0x0A])),
               log @ [Call (JStr ''content'')
                 ([CHR 0x22] @ ''say '' @ [CHR 0x27] @ ''hi'' @ [CHR 0x27] @ [CHR 0x5C, CHR 0x5C, CHR 0x5C, CHR ''n'']
                    @ [CHR 0x22]) m (or_empty fp) (JStr [])], Some e)
          | Inr className \<Rightarrow>
              (mk_property ''content'' (mk_string
                 (if className = [] then ''say '' @ [CHR 0x22] @ ''hi'' @ [CHR 0x22] @ [CHR 0x5C, CHR 0x0A]
                  else className)),
               log @ [Call (JStr ''content'')
                 ([CHR 0x22] @ ''say '' @ [CHR 0x27] @ ''hi'' @ [CHR 0x27] @ [CHR 0x5C, CHR 0x5C, CHR 0x5C, CHR ''n'']
                    @ [CHR 0x22]) m (or_empty fp) (JStr [])], None))"
proof (intro conjI impI)
  assume "getprop p (Fld ''key'') = Inr k" "isType ''Identifier'' k"
    "getpath p [Fld ''value'', Fld ''type''] = Inr (JStr ''StringLiteral'')"
    "getpath p [Fld ''value'', Fld ''value''] = Inr (JStr s)"
  then show "property_step eng m fp p log =
        (case eng log (Call (get k [Fld ''name'']) (json_quote (single_quotes s)) m (or_empty fp) (JStr [])) of
           Inl e \<Rightarrow> (p, log @ [Call (get k [Fld ''name'']) (json_quote (single_quotes s)) m (or_empty fp) (JStr [])], Some e)
         | Inr className \<Rightarrow>
             (if className = [] then p else put p [Fld ''value'', Fld ''value''] (JStr className),
              log @ [Call (get k [Fld ''name'']) (json_quote (single_quotes s)) m (or_empty fp) (JStr [])], None))"
    by (cases k) (auto simp: property_step_def string_step_def engine_args_def isType_def get_Cons
        split: sum.splits option.splits)
next
  assume "getprop q (Fld ''key'') = Inr kq" "isType ''Identifier'' kq"
    "getpath q [Fld ''value'', Fld ''type''] = Inr (JStr ''ObjectExpression'')"
    "getpath q [Fld ''value'', Fld ''properties''] = Inr (JArr nps)"
  then show "property_step eng m fp q log =
          (case loop_props (nested_step eng m fp (get kq [Fld ''name''])) nps log of
             (nps', log', r) \<Rightarrow> (put q [Fld ''value'', Fld ''properties''] (JArr nps'), log', r))"
    by (simp add: property_step_def loop_over_def split: prod.splits del: getpath.simps put.simps)
next
  assume "getpath np [Fld ''value'', Fld ''type''] = Inr (JStr ''StringLiteral'')"
      "getpath np [Fld ''key'', Fld ''name''] = Inr n"
      "getpath np [Fld ''value'', Fld ''value''] = Inr (JStr t)"
  then show "nested_step eng m fp pseudo np log =
          (case eng log (Call n (json_quote (single_quotes t)) m (or_empty fp) pseudo) of
             Inl e \<Rightarrow> (np, log @ [Call n (json_quote (single_quotes t)) m (or_empty fp) pseudo], Some e)
           | Inr className \<Rightarrow>
               (if className = [] then np else put np [Fld ''value'', Fld ''value''] (JStr className),
                log @ [Call n (json_quote (single_quotes t)) m (or_empty fp) pseudo], None))"
    by (simp add: nested_step_def string_step_def engine_args_def split: sum.splits del: getpath.simps put.simps)
next
  assume "getpath p [Fld ''value'', Fld ''value''] = Inr (JStr s)"
  then show "getpath (put p [Fld ''value'', Fld ''value''] (JStr className)) [Fld ''value'', Fld ''value'']
          = Inr (JStr className)"
    using getpath_put_same[of p "[Fld ''value'']" "''value''" s "JStr className"] by simp
next
  show "root (walkThroughOutAst mock_engine m fp scenario (log, errs))
        = mk_object [mk_property ''bgd'' (mk_string (''bgd_'' @ [CHR 0x22] @ ''red'' @ [CHR 0x22])),
                     mk_property ''Hover'' (mk_object
                       [mk_property ''color'' (mk_string (''color_'' @ [CHR 0x22] @ ''blue'' @ [CHR 0x22]))])]"
    by (simp add: scenario_def builder_steps mock_engine_def json_quote_def single_quotes_def)
next
  show "w_calls (walkThroughOutAst mock_engine m fp scenario (log, errs))
        = log @ [Call (JStr ''bgd'') ([CHR 0x22] @ ''red'' @ [CHR 0x22]) m (or_empty fp) (JStr []),
                 Call (JStr ''color'') ([CHR 0x22] @ ''blue'' @ [CHR 0x22]) m (or_empty fp) (JStr ''Hover'')]"
    by (simp add: scenario_def builder_steps mock_engine_def json_quote_def single_quotes_def)
next
  show "length (single_quotes s) = length s" by (simp add: single_quotes_def)
  show "\<forall>i < length s. single_quotes s ! i = (if s ! i = CHR 0x22 then CHR 0x27 else s ! i)"
    by (simp add: single_quotes_def)
  show "CHR 0x22 \<notin> set (single_quotes s)" by (auto simp: single_quotes_def)
  show "json_quote (a @ b) = [CHR 0x22] @ concat (map json_escape a) @ concat (map json_escape b) @ [CHR 0x22]"
    by (simp add: json_quote_def)
  show "json_escape (CHR 0x5C) = [CHR 0x5C, CHR 0x5C]" by simp
  show "json_escape (CHR 0x22) = [CHR 0x5C, CHR 0x22]" by simp
  show "json_escape (CHR 0x0A) = [CHR 0x5C, CHR ''n'']" by simp
  show "json_escape (CHR 0x09) = [CHR 0x5C, CHR ''t'']" by simp
  show "json_escape (CHR 0x01) = [CHR 0x5C, CHR ''u'', CHR ''0'', CHR ''0'', CHR ''0'', CHR ''1'']" by simp
  show "property_step eng m fp
         (mk_property ''content'' (mk_string (''say '' @ [CHR 0x22] @ ''hi'' @ [CHR 0x22] @ [CHR 0x5C, CHR 0x0A]))) log
       = (case eng log (Call (JStr ''content'')
                 ([CHR 0x22] @ ''say '' @ [CHR 0x27] @ ''hi'' @ [CHR 0x27] @ [CHR 0x5C, CHR 0x5C, CHR 0x5C, CHR ''n'']
                    @ [CHR 0x22]) m (or_empty fp) (JStr [])) of
            Inl e \<Rightarrow>
              (mk_property ''content'' (mk_string (''say '' @ [CHR 0x22] @ ''hi'' @ [CHR 0x22] @ [CHR 0x5C, CHR 0x0A])),
               log @ [Call (JStr ''content'')
                 ([CHR 0x22] @ ''say '' @ [CHR 0x27] @ ''hi'' @ [CHR 0x27] @ [CHR 0x5C, CHR 0x5C, CHR 0x5C, CHR ''n'']
                    @ [CHR 0x22]) m (or_empty fp) (JStr [])], Some e)
          | Inr className \<Rightarrow>
              (mk_property ''content'' (mk_string
                 (if className = [] then ''say '' @ [CHR 0x22] @ ''hi'' @ [CHR 0x22] @ [CHR 0x5C, CHR 0x0A]
                  else className)),
               log @ [Call (JStr ''content'')
                 ([CHR 0x22] @ ''say '' @ [CHR 0x27] @ ''hi'' @ [CHR 0x27] @ [CHR 0x5C, CHR 0x5C, CHR 0x5C, CHR ''n'']
                    @ [CHR 0x22]) m (or_empty fp) (JStr [])], None))"
  proof -
    have v: "json_quote (single_quotes (''say '' @ [CHR 0x22] @ ''hi'' @ [CHR 0x22] @ [CHR 0x5C, CHR 0x0A]))
        = [CHR 0x22] @ ''say '' @ [CHR 0x27] @ ''hi'' @ [CHR 0x27] @ [CHR 0x5C, CHR 0x5C, CHR 0x5C, CHR ''n'']
            @ [CHR 0x22]"
      by (simp add: json_quote_def single_quotes_def)
    show ?thesis unfolding property_step_mk_string v by (rule refl)
  qed
next
  assume "\<forall>c \<in> set t. c \<noteq> CHR 0x22 \<and> c \<noteq> CHR 0x5C \<and> 32 \<le> (of_char c :: nat)"
  then show "json_quote t = [CHR 0x22] @ t @ [CHR 0x22]" by (rule json_quote_plain)
qed


text \<open>The scenario's two properties, \<open>bgd: "red"\<close> and \<open>Hover: { color: "blue" }\<close>, and a value
  with double quotes, a backslash and a line feed.\<close>

theorem engine_arguments_witness:
  "property_step mock_engine (JBool True) (Some ''/p/a.js'') (mk_property ''bgd'' (mk_string ''red'')) []
     = (mk_property ''bgd'' (mk_string (''bgd_'' @ [CHR 0x22] @ ''red'' @ [CHR 0x22])),
        [Call (JStr ''bgd'') ([CHR 0x22] @ ''red'' @ [CHR 0x22]) (JBool True) ''/p/a.js'' (JStr [])], None)
   \<and> property_step mock_engine (JBool True) (Some ''/p/a.js'')
        (mk_property ''Hover'' (mk_object [mk_property ''color'' (mk_string ''blue'')])) []
     = (case loop_props (nested_step mock_engine (JBool True) (Some ''/p/a.js'') (JStr ''Hover''))
               [mk_property ''color'' (mk_string ''blue'')] [] of
          (nps', log', r) \<Rightarrow>
            (mk_property ''Hover'' (mk_object nps'), log', r))
   \<and> nested_step mock_engine (JBool True) (Some ''/p/a.js'') (JStr ''Hover'')
        (mk_property ''color'' (mk_string ''blue'')) []
     = (mk_property ''color'' (mk_string (''color_'' @ [CHR 0x22] @ ''blue'' @ [CHR 0x22])),
        [Call (JStr ''color'') ([CHR 0x22] @ ''blue'' @ [CHR 0x22]) (JBool True) ''/p/a.js'' (JStr ''Hover'')], None)
   \<and> getpath (put (mk_property ''bgd'' (mk_string ''red'')) [Fld ''value'', Fld ''value''] (JStr ''x''))
         [Fld ''value'', Fld ''value''] = Inr (JStr ''x'')
   \<and> json_quote ''red'' = [CHR 0x22] @ ''red'' @ [CHR 0x22]
   \<and> property_step mock_engine (JBool True) (Some ''/p/a.js'')
         (mk_property ''content'' (mk_string (''say '' @ [CHR 0x22] @ ''hi'' @ [CHR 0x22] @ [CHR 0x5C, CHR 0x0A]))) []
       = (mk_property ''content'' (mk_string (''content_'' @ [CHR 0x22] @ ''say '' @ [CHR 0x27] @ ''hi'' @ [CHR 0x27]
              @ [CHR 0x5C, CHR 0x5C, CHR 0x5C, CHR ''n''] @ [CHR 0x22])),
          [Call (JStr ''content'')
                 ([CHR 0x22] @ ''say '' @ [CHR 0x27] @ ''hi'' @ [CHR 0x27] @ [CHR 0x5C, CHR 0x5C, CHR 0x5C, CHR ''n'']
                    @ [CHR 0x22]) (JBool True) ''/p/a.js'' (JStr [])], None)"
proof -
  note th = engine_arguments[where p = "mk_property ''bgd'' (mk_string ''red'')" and k = "mk_identifier ''bgd''"
      and s = "''red''" and eng = mock_engine and m = "JBool True" and fp = "Some ''/p/a.js''" and log = "[]"
      and q = "mk_property ''Hover'' (mk_object [mk_property ''color'' (mk_string ''blue'')])"
      and kq = "mk_identifier ''Hover''" and nps = "[mk_property ''color'' (mk_string ''blue'')]"
      and np = "mk_property ''color'' (mk_string ''blue'')" and n = "JStr ''color''" and t = "''blue''"
      and pseudo = "JStr ''Hover''" and className = "''x''" and errs = "[]" and a = "''re''" and b = "''d''"]
  note th2 = engine_arguments[where t = "''red''"]
  have r: "\<forall>c \<in> set ''red''. c \<noteq> CHR 0x22 \<and> c \<noteq> CHR 0x5C \<and> 32 \<le> (of_char c :: nat)" by simp
  have j: "json_quote ''red'' = [CHR 0x22] @ ''red'' @ [CHR 0x22]"
    by (rule th2[THEN conjunct2, THEN conjunct2, THEN conjunct2, THEN conjunct2, THEN conjunct2,
        THEN conjunct2, THEN conjunct2, THEN conjunct2, THEN conjunct2, THEN conjunct2, THEN conjunct1,
        THEN mp, OF r])
  have main: "property_step mock_engine (JBool True) (Some ''/p/a.js'') (mk_property ''bgd'' (mk_string ''red'')) []
     = (mk_property ''bgd'' (mk_string (''bgd_'' @ [CHR 0x22] @ ''red'' @ [CHR 0x22])),
        [Call (JStr ''bgd'') ([CHR 0x22] @ ''red'' @ [CHR 0x22]) (JBool True) ''/p/a.js'' (JStr [])], None)
   \<and> property_step mock_engine (JBool True) (Some ''/p/a.js'')
        (mk_property ''Hover'' (mk_object [mk_property ''color'' (mk_string ''blue'')])) []
     = (case loop_props (nested_step mock_engine (JBool True) (Some ''/p/a.js'') (JStr ''Hover''))
               [mk_property ''color'' (mk_string ''blue'')] [] of
          (nps', log', r) \<Rightarrow>
            (mk_property ''Hover'' (mk_object nps'), log', r))
   \<and> nested_step mock_engine (JBool True) (Some ''/p/a.js'') (JStr ''Hover'')
        (mk_property ''color'' (mk_string ''blue'')) []
     = (mk_property ''color'' (mk_string (''color_'' @ [CHR 0x22] @ ''blue'' @ [CHR 0x22])),
        [Call (JStr ''color'') ([CHR 0x22] @ ''blue'' @ [CHR 0x22]) (JBool True) ''/p/a.js'' (JStr ''Hover'')], None)
   \<and> getpath (put (mk_property ''bgd'' (mk_string ''red'')) [Fld ''value'', Fld ''value''] (JStr ''x''))
         [Fld ''value'', Fld ''value''] = Inr (JStr ''x'')"
    using th[THEN conjunct1] th[THEN conjunct2, THEN conjunct1]
      th[THEN conjunct2, THEN conjunct2, THEN conjunct1]
      th[THEN conjunct2, THEN conjunct2, THEN conjunct2, THEN conjunct1]
    by (simp add: mk_property_def mk_identifier_def mk_string_def mk_object_def isType_def get_Cons
      mock_engine_def json_quote_def single_quotes_def or_empty_def split: prod.splits)
  have last: "property_step mock_engine (JBool True) (Some ''/p/a.js'')
         (mk_property ''content'' (mk_string (''say '' @ [CHR 0x22] @ ''hi'' @ [CHR 0x22] @ [CHR 0x5C, CHR 0x0A]))) []
       = (mk_property ''content'' (mk_string (''content_'' @ [CHR 0x22] @ ''say '' @ [CHR 0x27] @ ''hi'' @ [CHR 0x27]
              @ [CHR 0x5C, CHR 0x5C, CHR 0x5C, CHR ''n''] @ [CHR 0x22])),
          [Call (JStr ''content'')
                 ([CHR 0x22] @ ''say '' @ [CHR 0x27] @ ''hi'' @ [CHR 0x27] @ [CHR 0x5C, CHR 0x5C, CHR 0x5C, CHR ''n'']
                    @ [CHR 0x22]) (JBool True) ''/p/a.js'' (JStr [])], None)"
    using th[THEN conjunct2, THEN conjunct2, THEN conjunct2, THEN conjunct2, THEN conjunct2,
        THEN conjunct2, THEN conjunct2, THEN conjunct2, THEN conjunct2, THEN conjunct2, THEN conjunct2,
        THEN conjunct2, THEN conjunct2, THEN conjunct2, THEN conjunct2, THEN conjunct2]
    by (simp add: mock_engine_def or_empty_def)
  show ?thesis
    apply (intro conjI)
         apply (rule main[THEN conjunct1])
        apply (rule main[THEN conjunct2, THEN conjunct1])
       apply (rule main[THEN conjunct2, THEN conjunct2, THEN conjunct1])
      apply (rule main[THEN conjunct2, THEN conjunct2, THEN conjunct2])
     apply (rule j)
    apply (rule last)
    done
qed





text \<open>
  C8. From any root (a tree whose objects have each key once) the loop with its explicit
  stack visits exactly the nodes the specification names: the root and every object or
  array reachable through named slots and sequence elements, except the sequence-valued
  slots of an object literal (its properties), which are never pushed. It visits each of
  them once. On every node it visits it calls \<open>generatesAlchemy\<close>: the state the walk ends
  in is the one obtained by going through the visited nodes in the order of the visits,
  calling \<open>generatesAlchemy\<close> on the node as the tree has it at that moment with the engine
  calls and errors so far, and putting the node it returns in its place. The loop is a
  loop (\<open>walk_loop\<close>, shown to end for every tree and stack), not a recursion over the
  tree.
\<close>

theorem walker_coverage:
  "wf_js r \<longrightarrow>
     set (visited (walkThroughOutAst eng m fp r st)) = reach r
     \<and> distinct (visited (walkThroughOutAst eng m fp r st))
     \<and> walkThroughOutAst eng m fp r st
        = foldl (\<lambda>w p. case generatesAlchemy eng m fp (get (root w) p) (w_calls w, w_errors w) of
                   (node', log', errs') \<Rightarrow>
                     \<lparr>root = put (root w) p node', w_calls = log', w_errors = errs',
                      visited = visited w @ [p]\<rparr>)
            \<lparr>root = r, w_calls = fst st, w_errors = snd st, visited = []\<rparr>
            (visited (walkThroughOutAst eng m fp r st))
     \<and> (\<forall>p k. isType ''ObjectExpression'' (get r p) \<longrightarrow> is_array (get r (p @ [k])) \<longrightarrow>
            p @ [k] \<notin> set (visited (walkThroughOutAst eng m fp r st)))"
proof (intro impI conjI allI)
  assume wf: "wf_js r"
  show "set (visited (walkThroughOutAst eng m fp r st)) = reach r"
    by (simp add: visited_walk walk_order_reach del: walk_order.simps)
  show "distinct (visited (walkThroughOutAst eng m fp r st))"
    unfolding visited_walk by (rule distinct_walk_order[OF wf]) simp_all
  show "walkThroughOutAst eng m fp r st
        = foldl (\<lambda>w p. case generatesAlchemy eng m fp (get (root w) p) (w_calls w, w_errors w) of
                   (node', log', errs') \<Rightarrow>
                     \<lparr>root = put (root w) p node', w_calls = log', w_errors = errs',
                      visited = visited w @ [p]\<rparr>)
            \<lparr>root = r, w_calls = fst st, w_errors = snd st, visited = []\<rparr>
            (visited (walkThroughOutAst eng m fp r st))"
    unfolding visited_walk visit_unfold[symmetric] by (rule walkThroughOutAst_fold)
  fix p k
  assume oe: "isType ''ObjectExpression'' (get r p)" and arr: "is_array (get r (p @ [k]))"
  have "p @ [k] \<notin> reach r"
  proof
    assume "p @ [k] \<in> reach r"
    then show False using oe arr by (cases rule: reach.cases) auto
  qed
  then show "p @ [k] \<notin> set (visited (walkThroughOutAst eng m fp r st))"
    by (simp add: visited_walk walk_order_reach del: walk_order.simps)
qed


text \<open>The block \<open>{ return { bgd: "red", Hover: { color: "blue" } } }\<close> with the engine
  \<open>prop + "_" + val\<close>: six nodes are visited, the properties of the object literal are
  not, and the object literal, visited last, has been transformed by two engine calls.\<close>

theorem walker_coverage_witness:
  "wf_js example_block
   \<and> set (visited (walkThroughOutAst mock_engine (JBool True) None example_block ([], []))) = reach example_block
   \<and> distinct (visited (walkThroughOutAst mock_engine (JBool True) None example_block ([], [])))
   \<and> [Fld ''body'', Idx 0, Fld ''argument''] \<in> reach example_block
   \<and> [Fld ''body'', Idx 0, Fld ''argument''] @ [Fld ''properties'']
        \<notin> set (visited (walkThroughOutAst mock_engine (JBool True) None example_block ([], [])))
   \<and> visited (walkThroughOutAst mock_engine (JBool True) None example_block ([], []))
       = [[], [Fld ''directives''], [Fld ''body''], [Fld ''body'', Idx 0],
          [Fld ''body'', Idx 0, Fld ''loc''], [Fld ''body'', Idx 0, Fld ''argument'']]
   \<and> foldl (\<lambda>w p. case generatesAlchemy mock_engine (JBool True) None (get (root w) p) (w_calls w, w_errors w) of
                   (node', log', errs') \<Rightarrow>
                     \<lparr>root = put (root w) p node', w_calls = log', w_errors = errs',
                      visited = visited w @ [p]\<rparr>)
        \<lparr>root = example_block, w_calls = [], w_errors = [], visited = []\<rparr>
        [[], [Fld ''directives''], [Fld ''body''], [Fld ''body'', Idx 0],
          [Fld ''body'', Idx 0, Fld ''loc''], [Fld ''body'', Idx 0, Fld ''argument'']]
       = \<lparr>root = JObj [(''type'', JStr ''BlockStatement''),
           (''body'', JArr [JObj [(''type'', JStr ''ReturnStatement''),
                                  (''argument'', mk_object [mk_property ''bgd'' (mk_string ''bgd_\"red\"''),
                       mk_property ''Hover'' (mk_object [mk_property ''color'' (mk_string ''color_\"blue\"'')])]),
                                  (''loc'', JObj [(''start'', JNum 3), (''end'', JNum 60)])]]),
           (''directives'', JArr [])],
          w_calls = [Call (JStr ''bgd'') ''\"red\"'' (JBool True) [] (JStr []),
                     Call (JStr ''color'') ''\"blue\"'' (JBool True) [] (JStr ''Hover'')],
          w_errors = [],
          visited = [[], [Fld ''directives''], [Fld ''body''], [Fld ''body'', Idx 0],
                 [Fld ''body'', Idx 0, Fld ''loc''], [Fld ''body'', Idx 0, Fld ''argument'']]\<rparr>"
proof -
  have wf: "wf_js example_block"
    by (simp add: example_block_def scenario_def mk_object_def mk_property_def mk_identifier_def mk_string_def)
  have g: "get example_block [Fld ''body'', Idx 0, Fld ''argument''] = scenario"
    by (simp add: example_block_def get_Cons)
  have oe: "isType ''ObjectExpression'' (get example_block [Fld ''body'', Idx 0, Fld ''argument''])"
    unfolding g by (simp add: scenario_def mk_object_def isType_def)
  have arr: "is_array (get example_block ([Fld ''body'', Idx 0, Fld ''argument''] @ [Fld ''properties'']))"
    unfolding get_append g by (simp add: scenario_def mk_object_def get_Cons)
  have r1: "[] @ [Fld ''body''] \<in> reach example_block"
    by (rule reach.reach_child[OF reach.reach_root]) (simp_all add: example_block_def get_Cons isType_def)
  have r2: "([] @ [Fld ''body'']) @ [Idx 0] \<in> reach example_block"
    by (rule reach.reach_child[OF r1]) (simp_all add: example_block_def get_Cons isType_def)
  have r3: "(([] @ [Fld ''body'']) @ [Idx 0]) @ [Fld ''argument''] \<in> reach example_block"
    by (rule reach.reach_child[OF r2])
       (simp_all add: example_block_def get_Cons isType_def scenario_def mk_object_def)
  note th = walker_coverage[where r = example_block and eng = mock_engine and m = "JBool True"
        and fp = None and st = "([], [])", rule_format, OF wf]
  note w = walk_example_block[of "JBool True" None "[]" "[]"]
  have n: "[Fld ''body'', Idx 0, Fld ''argument''] @ [Fld ''properties'']
        \<notin> set (visited (walkThroughOutAst mock_engine (JBool True) None example_block ([], [])))"
    by (rule th[THEN conjunct2, THEN conjunct2, THEN conjunct2, rule_format, OF oe arr])
  have v: "visited (walkThroughOutAst mock_engine (JBool True) None example_block ([], []))
       = [[], [Fld ''directives''], [Fld ''body''], [Fld ''body'', Idx 0],
          [Fld ''body'', Idx 0, Fld ''loc''], [Fld ''body'', Idx 0, Fld ''argument'']]"
    by (simp add: w)
  have "walkThroughOutAst mock_engine (JBool True) None example_block ([], [])
      = foldl (\<lambda>w p. case generatesAlchemy mock_engine (JBool True) None (get (root w) p) (w_calls w, w_errors w) of
                   (node', log', errs') \<Rightarrow>
                     \<lparr>root = put (root w) p node', w_calls = log', w_errors = errs',
                      visited = visited w @ [p]\<rparr>)
        \<lparr>root = example_block, w_calls = [], w_errors = [], visited = []\<rparr>
        (visited (walkThroughOutAst mock_engine (JBool True) None example_block ([], [])))"
    using th[THEN conjunct2, THEN conjunct2, THEN conjunct1] by (simp only: fst_conv snd_conv)
  then have f: "foldl (\<lambda>w p. case generatesAlchemy mock_engine (JBool True) None (get (root w) p) (w_calls w, w_errors w) of
                   (node', log', errs') \<Rightarrow>
                     \<lparr>root = put (root w) p node', w_calls = log', w_errors = errs',
                      visited = visited w @ [p]\<rparr>)
        \<lparr>root = example_block, w_calls = [], w_errors = [], visited = []\<rparr>
        [[], [Fld ''directives''], [Fld ''body''], [Fld ''body'', Idx 0],
          [Fld ''body'', Idx 0, Fld ''loc''], [Fld ''body'', Idx 0, Fld ''argument'']]
      = walkThroughOutAst mock_engine (JBool True) None example_block ([], [])"
    by (simp only: v)
  have o: "or_empty None = []" by (simp add: or_empty_def)
  show ?thesis
    apply (intro conjI)
          apply (rule wf)
         apply (rule th[THEN conjunct1])
        apply (rule th[THEN conjunct2, THEN conjunct1])
       using r3 apply simp
      apply (rule n)
     apply (rule v)
    unfolding f w o append_Nil
    apply (rule refl)
    done
qed







text \<open>
  C7, as the code has it. A property whose value is a template literal goes to
  \<open>transformTemplateLiteral\<close>, from the style object with the empty pseudo-group and from
  a nested object with the enclosing key. Only the first expression of the template is
  looked at. When it is a ternary whose branches are string literals, the engine is called
  once for the consequent and once for the alternate, each with its own string; each
  branch takes the class name returned for it when that is not empty and stays as it is
  otherwise. The condition of the ternary is the same after the call as before it,
  whatever the engine returns or throws. When the template has no expression, the engine
  is called once for the cooked text of its first segment, which takes the class name when
  that is not empty (the raw text of the segment is not written). When the first
  expression is anything else, so that it has no string as the value of its consequent
  (an expression in front of the ternary, a ternary with other branches), reading it
  throws a TypeError: no engine call is made and the property stays as it is; when only
  the alternate is no string, the call for the consequent is made and nothing is assigned.
\<close>

theorem conditional_template:
  "(getpath p [Fld ''value'', Fld ''type''] = Inr (JStr ''TemplateLiteral'') \<longrightarrow>
    getpath p [Fld ''value'', Fld ''expressions'', Idx 0] = Inr condExpr \<longrightarrow> truthy condExpr \<longrightarrow>
    getpath p [Fld ''key'', Fld ''name''] = Inr n \<longrightarrow>
    getpath p consequent_path = Inr (JStr a) \<longrightarrow>
    getpath p alternate_path = Inr (JStr b) \<longrightarrow>
    eng log (Call n (json_quote (single_quotes a)) m (or_empty fp) pseudo) = Inr r1 \<longrightarrow>
    eng (log @ [Call n (json_quote (single_quotes a)) m (or_empty fp) pseudo])
        (Call n (json_quote (single_quotes b)) m (or_empty fp) pseudo) = Inr r2 \<longrightarrow>
      snd (transformTemplateLiteral eng m fp pseudo p log)
        = (log @ [Call n (json_quote (single_quotes a)) m (or_empty fp) pseudo,
                  Call n (json_quote (single_quotes b)) m (or_empty fp) pseudo], None)
      \<and> getpath (fst (transformTemplateLiteral eng m fp pseudo p log)) consequent_path
          = Inr (JStr (if r1 = [] then a else r1))
      \<and> getpath (fst (transformTemplateLiteral eng m fp pseudo p log)) alternate_path
          = Inr (JStr (if r2 = [] then b else r2)))
   \<and> getpath (fst (transformTemplateLiteral eng m fp pseudo p log)) test_path = getpath p test_path
   \<and> (getpath q [Fld ''value'', Fld ''type''] = Inr (JStr ''TemplateLiteral'') \<longrightarrow>
      getpath q [Fld ''value'', Fld ''expressions'', Idx 0] = Inr JUndef \<longrightarrow>
      getpath q [Fld ''value'', Fld ''quasis'', Idx 0] = Inr quasis \<longrightarrow> truthy quasis \<longrightarrow>
      getpath q [Fld ''key'', Fld ''name''] = Inr nq \<longrightarrow>
      getpath q cooked_path = Inr (JStr s) \<longrightarrow>
      eng log (Call nq (json_quote (single_quotes s)) m (or_empty fp) pseudo) = Inr r \<longrightarrow>
        snd (transformTemplateLiteral eng m fp pseudo q log)
          = (log @ [Call nq (json_quote (single_quotes s)) m (or_empty fp) pseudo], None)
        \<and> getpath (fst (transformTemplateLiteral eng m fp pseudo q log)) cooked_path
            = Inr (JStr (if r = [] then s else r)))
   \<and> (getprop p (Fld ''key'') = Inr k \<longrightarrow> isType ''Identifier'' k \<longrightarrow>
      getpath p [Fld ''value'', Fld ''type''] = Inr (JStr ''TemplateLiteral'') \<longrightarrow>
        property_step eng m fp p log = transformTemplateLiteral eng m fp (JStr []) p log)
   \<and> (getpath p [Fld ''value'', Fld ''type''] = Inr (JStr ''TemplateLiteral'') \<longrightarrow>
        nested_step eng m fp pseudo p log = transformTemplateLiteral eng m fp pseudo p log)
   \<and> (getpath u [Fld ''value'', Fld ''type''] = Inr (JStr ''TemplateLiteral'') \<longrightarrow>
      getpath u [Fld ''value'', Fld ''expressions'', Idx 0] = Inr first \<longrightarrow> truthy first \<longrightarrow>
      (\<forall>t. getpath u consequent_path \<noteq> Inr (JStr t)) \<longrightarrow>
        transformTemplateLiteral eng m fp pseudo u log = (u, log, Some TypeError))
   \<and> (getpath v [Fld ''value'', Fld ''type''] = Inr (JStr ''TemplateLiteral'') \<longrightarrow>
      getpath v [Fld ''value'', Fld ''expressions'', Idx 0] = Inr cond \<longrightarrow> truthy cond \<longrightarrow>
      getpath v [Fld ''key'', Fld ''name''] = Inr nv \<longrightarrow>
      getpath v consequent_path = Inr (JStr av) \<longrightarrow>
      (\<forall>t. getpath v alternate_path \<noteq> Inr (JStr t)) \<longrightarrow>
      eng log (Call nv (json_quote (single_quotes av)) m (or_empty fp) pseudo) = Inr rv \<longrightarrow>
        transformTemplateLiteral eng m fp pseudo v log
          = (v, log @ [Call nv (json_quote (single_quotes av)) m (or_empty fp) pseudo], Some TypeError))"
proof (intro conjI impI)
  assume h: "getpath p [Fld ''value'', Fld ''type''] = Inr (JStr ''TemplateLiteral'')"
    "getpath p [Fld ''value'', Fld ''expressions'', Idx 0] = Inr condExpr" "truthy condExpr"
    "getpath p [Fld ''key'', Fld ''name''] = Inr n"
    "getpath p consequent_path = Inr (JStr a)"
    "getpath p alternate_path = Inr (JStr b)"
    "eng log (Call n (json_quote (single_quotes a)) m (or_empty fp) pseudo) = Inr r1"
    "eng (log @ [Call n (json_quote (single_quotes a)) m (or_empty fp) pseudo])
        (Call n (json_quote (single_quotes b)) m (or_empty fp) pseudo) = Inr r2"
  have t: "transformTemplateLiteral eng m fp pseudo p log
      = ((if r2 = [] then (if r1 = [] then p else put p consequent_path (JStr r1))
          else put (if r1 = [] then p else put p consequent_path (JStr r1)) alternate_path (JStr r2)),
         log @ [Call n (json_quote (single_quotes a)) m (or_empty fp) pseudo,
                Call n (json_quote (single_quotes b)) m (or_empty fp) pseudo], None)"
    using h by (simp add: transformTemplateLiteral_def ternary_step_def engine_args_def Let_def
        del: getpath.simps put.simps)
  show "snd (transformTemplateLiteral eng m fp pseudo p log)
        = (log @ [Call n (json_quote (single_quotes a)) m (or_empty fp) pseudo,
                  Call n (json_quote (single_quotes b)) m (or_empty fp) pseudo], None)"
    by (simp add: t)
  show "getpath (fst (transformTemplateLiteral eng m fp pseudo p log)) consequent_path
          = Inr (JStr (if r1 = [] then a else r1))"
    using h(5) by (simp add: t test_untouched put_consequent_read del: getpath.simps put.simps)
  show "getpath (fst (transformTemplateLiteral eng m fp pseudo p log)) alternate_path
          = Inr (JStr (if r2 = [] then b else r2))"
    using h(6) put_alternate_read[of "put p consequent_path (JStr r1)" b "JStr r2"]
      put_alternate_read[of p b "JStr r2"]
    by (simp add: t test_untouched del: getpath.simps put.simps)
next
  show "getpath (fst (transformTemplateLiteral eng m fp pseudo p log)) test_path = getpath p test_path"
  proof -
    have c: "getpath (put p cooked_path w) test_path = getpath p test_path" for w
      using getpath_put_other[of "''quasis''" "''expressions''" p "[Fld ''value'']"
          "[Idx 0, Fld ''value'', Fld ''cooked'']" w "[Idx 0, Fld ''test'']"]
      by (simp add: cooked_path_def test_path_def del: getpath.simps put.simps)
    show ?thesis
      unfolding transformTemplateLiteral_def string_step_def
      by (auto split: sum.splits simp: ternary_step_test c simp del: getpath.simps put.simps)
  qed
next
  assume h: "getpath q [Fld ''value'', Fld ''type''] = Inr (JStr ''TemplateLiteral'')"
      "getpath q [Fld ''value'', Fld ''expressions'', Idx 0] = Inr JUndef"
      "getpath q [Fld ''value'', Fld ''quasis'', Idx 0] = Inr quasis" "truthy quasis"
      "getpath q [Fld ''key'', Fld ''name''] = Inr nq"
      "getpath q cooked_path = Inr (JStr s)"
      "eng log (Call nq (json_quote (single_quotes s)) m (or_empty fp) pseudo) = Inr r"
  have t: "transformTemplateLiteral eng m fp pseudo q log
      = ((if r = [] then q else put q cooked_path (JStr r)),
         log @ [Call nq (json_quote (single_quotes s)) m (or_empty fp) pseudo], None)"
    using h by (simp add: transformTemplateLiteral_def string_step_def engine_args_def
        del: getpath.simps put.simps)
  show "snd (transformTemplateLiteral eng m fp pseudo q log)
          = (log @ [Call nq (json_quote (single_quotes s)) m (or_empty fp) pseudo], None)"
    by (simp add: t)
  show "getpath (fst (transformTemplateLiteral eng m fp pseudo q log)) cooked_path
            = Inr (JStr (if r = [] then s else r))"
    using h(6) by (simp add: t put_cooked_read del: getpath.simps put.simps)
next
  assume "getprop p (Fld ''key'') = Inr k" "isType ''Identifier'' k"
    "getpath p [Fld ''value'', Fld ''type''] = Inr (JStr ''TemplateLiteral'')"
  then show "property_step eng m fp p log = transformTemplateLiteral eng m fp (JStr []) p log"
    by (simp add: property_step_def del: getpath.simps put.simps)
next
  assume "getpath p [Fld ''value'', Fld ''type''] = Inr (JStr ''TemplateLiteral'')"
  then show "nested_step eng m fp pseudo p log = transformTemplateLiteral eng m fp pseudo p log"
    by (simp add: nested_step_def del: getpath.simps put.simps)
next
  assume h: "getpath u [Fld ''value'', Fld ''type''] = Inr (JStr ''TemplateLiteral'')"
    "getpath u [Fld ''value'', Fld ''expressions'', Idx 0] = Inr first" "truthy first"
    "\<forall>t. getpath u consequent_path \<noteq> Inr (JStr t)"
  have "engine_args m fp pseudo consequent_path u = Inl TypeError"
    by (rule engine_args_no_string) (use h(4) in blast)
  then show "transformTemplateLiteral eng m fp pseudo u log = (u, log, Some TypeError)"
    using h(1,2,3) by (simp add: transformTemplateLiteral_def ternary_step_def del: getpath.simps put.simps)
next
  assume h: "getpath v [Fld ''value'', Fld ''type''] = Inr (JStr ''TemplateLiteral'')"
    "getpath v [Fld ''value'', Fld ''expressions'', Idx 0] = Inr cond" "truthy cond"
    "getpath v [Fld ''key'', Fld ''name''] = Inr nv"
    "getpath v consequent_path = Inr (JStr av)"
    "\<forall>t. getpath v alternate_path \<noteq> Inr (JStr t)"
    "eng log (Call nv (json_quote (single_quotes av)) m (or_empty fp) pseudo) = Inr rv"
  have a: "engine_args m fp pseudo alternate_path v = Inl TypeError"
    by (rule engine_args_no_string) (use h(6) in blast)
  have c: "engine_args m fp pseudo consequent_path v
      = Inr (Call nv (json_quote (single_quotes av)) m (or_empty fp) pseudo)"
    using h(4,5) by (simp add: engine_args_def del: getpath.simps)
  show "transformTemplateLiteral eng m fp pseudo v log
          = (v, log @ [Call nv (json_quote (single_quotes av)) m (or_empty fp) pseudo], Some TypeError)"
    using h(1,2,3,7) a c
    by (simp add: transformTemplateLiteral_def ternary_step_def del: getpath.simps put.simps)
qed


text \<open>\<open>w: `${c ? "a" : "b"}`\<close> and \<open>h: `x`\<close> with the engine \<open>prop + "_" + val\<close>, and the
  templates \<open>`${a}${c ? "x" : "y"}`\<close> and \<open>`${c ? "x" : d}`\<close>, at which the transformer throws.\<close>

theorem conditional_template_witness:
  "snd (transformTemplateLiteral mock_engine (JBool True) None (JStr [])
          (mk_property ''w'' (mk_ternary (mk_identifier ''c'') ''a'' ''b'')) [])
     = ([Call (JStr ''w'') ([CHR 0x22] @ ''a'' @ [CHR 0x22]) (JBool True) [] (JStr []),
         Call (JStr ''w'') ([CHR 0x22] @ ''b'' @ [CHR 0x22]) (JBool True) [] (JStr [])], None)
   \<and> getpath (fst (transformTemplateLiteral mock_engine (JBool True) None (JStr [])
          (mk_property ''w'' (mk_ternary (mk_identifier ''c'') ''a'' ''b'')) [])) consequent_path
     = Inr (JStr (''w_'' @ [CHR 0x22] @ ''a'' @ [CHR 0x22]))
   \<and> getpath (fst (transformTemplateLiteral mock_engine (JBool True) None (JStr [])
          (mk_property ''w'' (mk_ternary (mk_identifier ''c'') ''a'' ''b'')) [])) alternate_path
     = Inr (JStr (''w_'' @ [CHR 0x22] @ ''b'' @ [CHR 0x22]))
   \<and> getpath (fst (transformTemplateLiteral mock_engine (JBool True) None (JStr [])
          (mk_property ''w'' (mk_ternary (mk_identifier ''c'') ''a'' ''b'')) [])) test_path
     = Inr (mk_identifier ''c'')
   \<and> snd (transformTemplateLiteral mock_engine (JBool True) None (JStr [])
          (mk_property ''h'' (mk_template ''x'')) [])
     = ([Call (JStr ''h'') ([CHR 0x22] @ ''x'' @ [CHR 0x22]) (JBool True) [] (JStr [])], None)
   \<and> getpath (fst (transformTemplateLiteral mock_engine (JBool True) None (JStr [])
          (mk_property ''h'' (mk_template ''x'')) [])) cooked_path
     = Inr (JStr (''h_'' @ [CHR 0x22] @ ''x'' @ [CHR 0x22]))
   \<and> property_step mock_engine (JBool True) None (mk_property ''w'' (mk_ternary (mk_identifier ''c'') ''a'' ''b'')) []
     = transformTemplateLiteral mock_engine (JBool True) None (JStr [])
         (mk_property ''w'' (mk_ternary (mk_identifier ''c'') ''a'' ''b'')) []
   \<and> transformTemplateLiteral mock_engine (JBool True) None (JStr [])
         (mk_property ''w'' (mk_ternary_second (mk_identifier ''a'') (mk_identifier ''c'') ''x'' ''y'')) []
     = (mk_property ''w'' (mk_ternary_second (mk_identifier ''a'') (mk_identifier ''c'') ''x'' ''y''),
        [], Some TypeError)
   \<and> transformTemplateLiteral mock_engine (JBool True) None (JStr [])
         (mk_property ''w'' (JObj [(''type'', JStr ''TemplateLiteral''),
            (''expressions'', JArr [JObj [(''type'', JStr ''ConditionalExpression''),
                                          (''test'', mk_identifier ''c''),
                                          (''consequent'', mk_string ''x''),
                                          (''alternate'', mk_identifier ''d'')]]),
            (''quasis'', JArr [mk_element [], mk_element []])])) []
     = (mk_property ''w'' (JObj [(''type'', JStr ''TemplateLiteral''),
            (''expressions'', JArr [JObj [(''type'', JStr ''ConditionalExpression''),
                                          (''test'', mk_identifier ''c''),
                                          (''consequent'', mk_string ''x''),
                                          (''alternate'', mk_identifier ''d'')]]),
            (''quasis'', JArr [mk_element [], mk_element []])]),
        [Call (JStr ''w'') ([CHR 0x22] @ ''x'' @ [CHR 0x22]) (JBool True) [] (JStr [])], Some TypeError)"
proof -
  let ?p = "mk_property ''w'' (mk_ternary (mk_identifier ''c'') ''a'' ''b'')"
  let ?q = "mk_property ''h'' (mk_template ''x'')"
  let ?u = "mk_property ''w'' (mk_ternary_second (mk_identifier ''a'') (mk_identifier ''c'') ''x'' ''y'')"
  let ?v = "mk_property ''w'' (JObj [(''type'', JStr ''TemplateLiteral''),
            (''expressions'', JArr [JObj [(''type'', JStr ''ConditionalExpression''),
                                          (''test'', mk_identifier ''c''),
                                          (''consequent'', mk_string ''x''),
                                          (''alternate'', mk_identifier ''d'')]]),
            (''quasis'', JArr [mk_element [], mk_element []])])"
  have p: "getpath ?p [Fld ''value'', Fld ''type''] = Inr (JStr ''TemplateLiteral'')"
    "getpath ?p [Fld ''value'', Fld ''expressions'', Idx 0]
       = Inr (JObj [(''type'', JStr ''ConditionalExpression''), (''test'', mk_identifier ''c''),
                    (''consequent'', mk_string ''a''), (''alternate'', mk_string ''b'')])"
    "getpath ?p [Fld ''key'', Fld ''name''] = Inr (JStr ''w'')"
    "getpath ?p consequent_path = Inr (JStr ''a'')"
    "getpath ?p alternate_path = Inr (JStr ''b'')"
    "getpath ?p test_path = Inr (mk_identifier ''c'')"
    "getprop ?p (Fld ''key'') = Inr (mk_identifier ''w'')"
    "isType ''Identifier'' (mk_identifier ''w'')"
    by (simp_all add: mk_property_def mk_ternary_def mk_identifier_def mk_string_def isType_def
        consequent_path_def alternate_path_def test_path_def)
  have q: "getpath ?q [Fld ''value'', Fld ''type''] = Inr (JStr ''TemplateLiteral'')"
    "getpath ?q [Fld ''value'', Fld ''expressions'', Idx 0] = Inr JUndef"
    "getpath ?q [Fld ''value'', Fld ''quasis'', Idx 0] = Inr (mk_element ''x'')"
    "truthy (mk_element ''x'')"
    "getpath ?q [Fld ''key'', Fld ''name''] = Inr (JStr ''h'')"
    "getpath ?q cooked_path = Inr (JStr ''x'')"
    by (simp_all add: mk_property_def mk_template_def mk_identifier_def mk_element_def cooked_path_def)
  have u: "getpath ?u [Fld ''value'', Fld ''type''] = Inr (JStr ''TemplateLiteral'')"
    "getpath ?u [Fld ''value'', Fld ''expressions'', Idx 0] = Inr (mk_identifier ''a'')"
    "truthy (mk_identifier ''a'')"
    "\<forall>t. getpath ?u consequent_path \<noteq> Inr (JStr t)"
    by (simp_all add: mk_property_def mk_ternary_second_def mk_identifier_def consequent_path_def)
  have v: "getpath ?v [Fld ''value'', Fld ''type''] = Inr (JStr ''TemplateLiteral'')"
    "getpath ?v [Fld ''value'', Fld ''expressions'', Idx 0]
       = Inr (JObj [(''type'', JStr ''ConditionalExpression''), (''test'', mk_identifier ''c''),
                    (''consequent'', mk_string ''x''), (''alternate'', mk_identifier ''d'')])"
    "getpath ?v [Fld ''key'', Fld ''name''] = Inr (JStr ''w'')"
    "getpath ?v consequent_path = Inr (JStr ''x'')"
    "\<forall>t. getpath ?v alternate_path \<noteq> Inr (JStr t)"
    by (simp_all add: mk_property_def mk_identifier_def mk_string_def consequent_path_def alternate_path_def)
  have j: "json_quote (single_quotes ''a'') = [CHR 0x22] @ ''a'' @ [CHR 0x22]"
    "json_quote (single_quotes ''b'') = [CHR 0x22] @ ''b'' @ [CHR 0x22]"
    "json_quote (single_quotes ''x'') = [CHR 0x22] @ ''x'' @ [CHR 0x22]"
    by (simp_all add: json_quote_def single_quotes_def)
  note th = conditional_template[where p = ?p and q = ?q and eng = mock_engine and m = "JBool True"
      and fp = None and pseudo = "JStr []" and log = "[]" and n = "JStr ''w''" and a = "''a''" and b = "''b''"
      and condExpr = "JObj [(''type'', JStr ''ConditionalExpression''), (''test'', mk_identifier ''c''),
                    (''consequent'', mk_string ''a''), (''alternate'', mk_string ''b'')]"
      and ?r1.0 = "''w_'' @ json_quote (single_quotes ''a'')"
      and ?r2.0 = "''w_'' @ json_quote (single_quotes ''b'')"
      and k = "mk_identifier ''w''" and nq = "JStr ''h''" and s = "''x''"
      and quasis = "mk_element ''x''" and r = "''h_'' @ json_quote (single_quotes ''x'')"
      and u = ?u and first = "mk_identifier ''a''" and v = ?v
      and cond = "JObj [(''type'', JStr ''ConditionalExpression''), (''test'', mk_identifier ''c''),
                    (''consequent'', mk_string ''x''), (''alternate'', mk_identifier ''d'')]"
      and nv = "JStr ''w''" and av = "''x''" and rv = "''w_'' @ json_quote (single_quotes ''x'')"]
  show ?thesis
    using th p q u v
    by (simp add: j or_empty_def mock_engine_def del: getpath.simps)
qed

text \<open>
  C7 as it is stated fails: the template \<open>`${a}${c ? "x" : "y"}`\<close> embeds a ternary, but
  not as its first expression. The transformer reads the consequent of the identifier
  \<open>a\<close> and throws: the engine is not called for \<open>"x"\<close> or \<open>"y"\<close>, both stay as they are,
  and in \<open>{ w: `${a}${c ? "x" : "y"}`, h: "red" }\<close> the sibling \<open>h\<close> is not transformed
  either.
\<close>

theorem ternary_after_expression:
  "transformTemplateLiteral mock_engine (JBool True) (Some ''/p/a.js'') (JStr [])
      (mk_property ''w'' (mk_ternary_second (mk_identifier ''a'') (mk_identifier ''c'') ''x'' ''y'')) []
     = (mk_property ''w'' (mk_ternary_second (mk_identifier ''a'') (mk_identifier ''c'') ''x'' ''y''),
        [], Some TypeError)
   \<and> generatesAlchemy mock_engine (JBool True) (Some ''/p/a.js'')
        (mk_object [mk_property ''w'' (mk_ternary_second (mk_identifier ''a'') (mk_identifier ''c'') ''x'' ''y''),
                    mk_property ''h'' (mk_string ''red'')]) ([], [])
     = (mk_object [mk_property ''w'' (mk_ternary_second (mk_identifier ''a'') (mk_identifier ''c'') ''x'' ''y''),
                   mk_property ''h'' (mk_string ''red'')], [], [TypeError])"
proof -
  let ?u = "mk_property ''w'' (mk_ternary_second (mk_identifier ''a'') (mk_identifier ''c'') ''x'' ''y'')"
  have t: "transformTemplateLiteral mock_engine (JBool True) (Some ''/p/a.js'') (JStr []) ?u log
      = (?u, log, Some TypeError)" for log
    by (simp add: transformTemplateLiteral_def ternary_step_def engine_args_def consequent_path_def
        mk_property_def mk_ternary_second_def mk_identifier_def)
  have s: "property_step mock_engine (JBool True) (Some ''/p/a.js'') ?u log
      = transformTemplateLiteral mock_engine (JBool True) (Some ''/p/a.js'') (JStr []) ?u log" for log
    by (simp add: property_step_def isType_def mk_property_def mk_ternary_second_def mk_identifier_def)
  show ?thesis
    unfolding generatesAlchemy_mk_object using t[of "[]"] by (simp add: s t del: loop_props.simps(2))
      (simp add: s t)
qed


text \<open>
  C9, as the code has it. The rule of the claim is the rule of the build command, not of
  the Babel plugin. In the build command every exclusion entry that holds no \<open>/\<close> and no
  \<open>.\<close> becomes \<open><name>/**\<close> before it is handed to the file discovery as an ignore
  pattern, and every other entry is handed over as it is. With \<open>exclude = ["tests"]\<close> the
  ignore list ends in \<open>tests/**\<close>, so \<open>tests/foo.js\<close> (which that pattern matches) is not
  processed, while \<open>src/tests.js\<close> (a source file no ignore pattern matches) is. A path
  whose first character is \<open>.\<close> is never processed. The visitor of the Babel plugin expands
  nothing and has no rule for a leading \<open>.\<close>: it leaves a call site as it is, without
  walking it, exactly when the path of the file contains \<open>path.resolve(entry)\<close> for some
  entry, as a substring. In a project at \<open>/proj\<close> with \<open>exclude = ["tests"]\<close> it skips
  \<open>/proj/tests/foo.js\<close> and takes \<open>/proj/src/tests.js\<close>, but it also skips \<open>/proj/tests.js\<close>
  and \<open>/proj/testsuite/a.js\<close>.
\<close>

theorem exclusion_filter:
  "expand_item (JStr s)
     = Inr (JStr (if CHR ''/'' \<notin> set s \<and> CHR ''.'' \<notin> set s then s @ ''/**'' else s))
   \<and> ignore_list (JArr (map JStr es))
     = Inr ([JStr ''node_modules/**'', JStr ''**/*.{config.js,config.ts}'', JStr ''**/*.{.}'']
            @ map (\<lambda>s. JStr (if CHR ''/'' \<notin> set s \<and> CHR ''.'' \<notin> set s then s @ ''/**'' else s)) es)
   \<and> (get cfg [Fld ''exclude''] = JArr [JStr ''tests''] \<longrightarrow>
        selected_paths gmatch files cfg = Inr ps \<longrightarrow>
          fst (assembleApplicationStyles gmatch files resolve cfg) = map resolve ps
          \<and> (gmatch ''tests/**'' ''tests/foo.js'' \<longrightarrow> ''tests/foo.js'' \<notin> set ps)
          \<and> (''src/tests.js'' \<in> set files \<longrightarrow> gmatch ''**/*.{js,jsx,ts,tsx}'' ''src/tests.js'' \<longrightarrow>
               \<not> gmatch ''tests/**'' ''src/tests.js'' \<longrightarrow> \<not> gmatch ''node_modules/**'' ''src/tests.js'' \<longrightarrow>
               \<not> gmatch ''**/*.{config.js,config.ts}'' ''src/tests.js'' \<longrightarrow>
               \<not> gmatch ''**/*.{.}'' ''src/tests.js'' \<longrightarrow> ''src/tests.js'' \<in> set ps))
   \<and> (selected_paths gmatch files cfg = Inr ps \<longrightarrow> (\<forall>p \<in> set ps. p = [] \<or> hd p \<noteq> CHR ''.''))
   \<and> (get cfg [Fld ''exclude''] = JArr (map JStr es) \<longrightarrow>
        selected_paths gmatch files cfg
          = Inr (filter (\<lambda>f. gmatch ''**/*.{js,jsx,ts,tsx}'' f
                   \<and> \<not> (\<exists>pat \<in> set ([''node_modules/**'', ''**/*.{config.js,config.ts}'', ''**/*.{.}'']
                        @ map (\<lambda>s. if CHR ''/'' \<notin> set s \<and> CHR ''.'' \<notin> set s then s @ ''/**'' else s) es).
                          gmatch pat f)
                   \<and> (f = [] \<or> hd f \<noteq> CHR ''.'')) files))
   \<and> excludePath resolve (JArr (map JStr es)) (Some f)
        = Inr (\<exists>e \<in> set es. \<exists>a b. f = a @ resolve e @ b)
   \<and> excludePath (\<lambda>p. ''/proj/'' @ p) (JArr [JStr ''tests'']) (Some ''/proj/tests/foo.js'') = Inr True
   \<and> excludePath (\<lambda>p. ''/proj/'' @ p) (JArr [JStr ''tests'']) (Some ''/proj/src/tests.js'') = Inr False
   \<and> excludePath (\<lambda>p. ''/proj/'' @ p) (JArr [JStr ''tests'']) (Some ''/proj/tests.js'') = Inr True
   \<and> excludePath (\<lambda>p. ''/proj/'' @ p) (JArr [JStr ''tests'']) (Some ''/proj/testsuite/a.js'') = Inr True
   \<and> (excludePath resolve (get cfg [Fld ''exclude'']) (filename site) = Inr True \<longrightarrow>
        CallExpression hash resolve eng cfg site g = (site, g))
   \<and> (excludePath resolve (get cfg [Fld ''exclude'']) (src_filename s0) = Inr True \<longrightarrow>
        calls (snd (run_plugin hash resolve eng cfg [s0] g)) = calls g
        \<and> errors (snd (run_plugin hash resolve eng cfg [s0] g)) = errors g
        \<and> map (body_of (snd (run_plugin hash resolve eng cfg [s0] g)))
              (fst (run_plugin hash resolve eng cfg [s0] g)) = [src_body s0])"
proof (intro conjI impI)
  show "expand_item (JStr s)
     = Inr (JStr (if CHR ''/'' \<notin> set s \<and> CHR ''.'' \<notin> set s then s @ ''/**'' else s))"
    by (rule expand_item_string)
  show "ignore_list (JArr (map JStr es))
     = Inr ([JStr ''node_modules/**'', JStr ''**/*.{config.js,config.ts}'', JStr ''**/*.{.}'']
            @ map (\<lambda>s. JStr (if CHR ''/'' \<notin> set s \<and> CHR ''.'' \<notin> set s then s @ ''/**'' else s)) es)"
    by (simp add: ignore_list_def map_items_strings)
  show "excludePath (\<lambda>p. ''/proj/'' @ p) (JArr [JStr ''tests'']) (Some ''/proj/tests/foo.js'') = Inr True"
    by (simp add: excludePath_def)
  show "excludePath (\<lambda>p. ''/proj/'' @ p) (JArr [JStr ''tests'']) (Some ''/proj/src/tests.js'') = Inr False"
    by (simp add: excludePath_def)
  show "excludePath (\<lambda>p. ''/proj/'' @ p) (JArr [JStr ''tests'']) (Some ''/proj/tests.js'') = Inr True"
    by (simp add: excludePath_def)
  show "excludePath (\<lambda>p. ''/proj/'' @ p) (JArr [JStr ''tests'']) (Some ''/proj/testsuite/a.js'') = Inr True"
    by (simp add: excludePath_def)
  show "excludePath resolve (JArr (map JStr es)) (Some f)
        = Inr (\<exists>e \<in> set es. \<exists>a b. f = a @ resolve e @ b)"
    by (rule excludePath_strings)
next
  assume "excludePath resolve (get cfg [Fld ''exclude'']) (filename site) = Inr True"
  then show "CallExpression hash resolve eng cfg site g = (site, g)"
    by (simp add: CallExpression_def)
next
  assume x: "excludePath resolve (get cfg [Fld ''exclude'']) (src_filename s0) = Inr True"
  note r = run_excluded[OF x, of hash eng g]
  show "calls (snd (run_plugin hash resolve eng cfg [s0] g)) = calls g"
    unfolding r by (simp add: parse_site_reads)
  show "errors (snd (run_plugin hash resolve eng cfg [s0] g)) = errors g"
    unfolding r by (simp add: parse_site_reads)
  show "map (body_of (snd (run_plugin hash resolve eng cfg [s0] g)))
              (fst (run_plugin hash resolve eng cfg [s0] g)) = [src_body s0]"
    unfolding r by (simp add: body_of_parse)
next
  assume "selected_paths gmatch files cfg = Inr ps"
  then show "\<forall>p \<in> set ps. p = [] \<or> hd p \<noteq> CHR ''.''"
    by (auto simp: selected_paths_def split: sum.splits list.splits)
next
  assume c: "get cfg [Fld ''exclude''] = JArr (map JStr es)"
  show "selected_paths gmatch files cfg
          = Inr (filter (\<lambda>f. gmatch ''**/*.{js,jsx,ts,tsx}'' f
                   \<and> \<not> (\<exists>pat \<in> set ([''node_modules/**'', ''**/*.{config.js,config.ts}'', ''**/*.{.}'']
                        @ map (\<lambda>s. if CHR ''/'' \<notin> set s \<and> CHR ''.'' \<notin> set s then s @ ''/**'' else s) es).
                          gmatch pat f)
                   \<and> (f = [] \<or> hd f \<noteq> CHR ''.'')) files)"
    by (rule selected_paths_strings[OF c])
next
  assume c: "get cfg [Fld ''exclude''] = JArr [JStr ''tests'']" and s: "selected_paths gmatch files cfg = Inr ps"
  have ig: "ignore_list (get cfg [Fld ''exclude''])
      = Inr [JStr ''node_modules/**'', JStr ''**/*.{config.js,config.ts}'', JStr ''**/*.{.}'', JStr ''tests/**'']"
    using map_items_strings[of "[''tests'']"] by (simp add: c ignore_list_def)
  have ps: "ps = filter (\<lambda>p. case p of [] \<Rightarrow> True | c # cs \<Rightarrow> c \<noteq> CHR ''.'')
                 (filter (\<lambda>f. gmatch ''**/*.{js,jsx,ts,tsx}'' f
                    \<and> \<not> list_ex (\<lambda>i. case i of JStr pat \<Rightarrow> gmatch pat f | _ \<Rightarrow> False)
                         [JStr ''node_modules/**'', JStr ''**/*.{config.js,config.ts}'', JStr ''**/*.{.}'',
                          JStr ''tests/**'']) files)"
    using s by (simp add: selected_paths_def ig glob_def)
  show "fst (assembleApplicationStyles gmatch files resolve cfg) = map resolve ps"
    by (simp add: assembleApplicationStyles_def s)
  {
    assume "gmatch ''tests/**'' ''tests/foo.js''"
    then show "''tests/foo.js'' \<notin> set ps" by (simp add: ps)
  }
  {
    assume "''src/tests.js'' \<in> set files" "gmatch ''**/*.{js,jsx,ts,tsx}'' ''src/tests.js''"
      "\<not> gmatch ''tests/**'' ''src/tests.js''" "\<not> gmatch ''node_modules/**'' ''src/tests.js''"
      "\<not> gmatch ''**/*.{config.js,config.ts}'' ''src/tests.js''" "\<not> gmatch ''**/*.{.}'' ''src/tests.js''"
    then show "''src/tests.js'' \<in> set ps" by (simp add: ps)
  }
qed


text \<open>A project with \<open>tests/foo.js\<close>, \<open>src/tests.js\<close> and \<open>.hidden.js\<close>, and a matcher that
  knows the source pattern and \<open>tests/**\<close>; a call site in \<open>/proj/tests/foo.js\<close> stays as
  parsed.\<close>

theorem exclusion_filter_witness:
  "selected_paths (\<lambda>pat f. pat = ''**/*.{js,jsx,ts,tsx}'' \<or> (pat = ''tests/**'' \<and> starts_with ''tests/'' f))
      [''tests/foo.js'', ''src/tests.js'', ''.hidden.js'']
      (JObj [(''exclude'', JArr [JStr ''tests'']), (''module'', JBool False)])
     = Inr [''src/tests.js'']
   \<and> fst (assembleApplicationStyles
          (\<lambda>pat f. pat = ''**/*.{js,jsx,ts,tsx}'' \<or> (pat = ''tests/**'' \<and> starts_with ''tests/'' f))
          [''tests/foo.js'', ''src/tests.js'', ''.hidden.js''] (\<lambda>p. ''/proj/'' @ p)
          (JObj [(''exclude'', JArr [JStr ''tests'']), (''module'', JBool False)]))
     = map (\<lambda>p. ''/proj/'' @ p) [''src/tests.js'']
   \<and> ''tests/foo.js'' \<notin> set [''src/tests.js'']
   \<and> ''src/tests.js'' \<in> set [''src/tests.js'']
   \<and> expand_item (JStr ''tests'') = Inr (JStr ''tests/**'')
   \<and> expand_item (JStr ''src/legacy'') = Inr (JStr ''src/legacy'')
   \<and> expand_item (JStr ''a.js'') = Inr (JStr ''a.js'')
   \<and> calls (snd (run_plugin plain_hash (\<lambda>p. ''/proj/'' @ p) mock_engine
        (JObj [(''exclude'', JArr [JStr ''tests'']), (''module'', JBool False)])
        [example_site ''/proj/tests/foo.js'' scenario] initial)) = []
   \<and> map (body_of (snd (run_plugin plain_hash (\<lambda>p. ''/proj/'' @ p) mock_engine
        (JObj [(''exclude'', JArr [JStr ''tests'']), (''module'', JBool False)])
        [example_site ''/proj/tests/foo.js'' scenario] initial)))
       (fst (run_plugin plain_hash (\<lambda>p. ''/proj/'' @ p) mock_engine
        (JObj [(''exclude'', JArr [JStr ''tests'']), (''module'', JBool False)])
        [example_site ''/proj/tests/foo.js'' scenario] initial)) = [Some scenario]"
proof -
  let ?m = "\<lambda>pat f. pat = ''**/*.{js,jsx,ts,tsx}'' \<or> (pat = ''tests/**'' \<and> starts_with ''tests/'' f)"
  let ?cfg = "JObj [(''exclude'', JArr [JStr ''tests'']), (''module'', JBool False)]"
  have c: "get ?cfg [Fld ''exclude''] = JArr [JStr ''tests'']" by (simp add: get_Cons)
  have s: "selected_paths ?m [''tests/foo.js'', ''src/tests.js'', ''.hidden.js''] ?cfg = Inr [''src/tests.js'']"
    by (simp add: selected_paths_def c ignore_list_def expand_item_string glob_def)
  have m: "?m ''tests/**'' ''tests/foo.js''" by simp
  have x: "excludePath (\<lambda>p. ''/proj/'' @ p) (get ?cfg [Fld ''exclude''])
             (src_filename (example_site ''/proj/tests/foo.js'' scenario)) = Inr True"
    by (simp add: c excludePath_def example_site_def)
  have sb: "src_body (example_site ''/proj/tests/foo.js'' scenario) = Some scenario"
    by (simp add: src_body_def example_site_def scenario_def mk_object_def)
  have i: "calls initial = []" by (simp add: initial_def)
  note th = exclusion_filter[where cfg = ?cfg and gmatch = ?m
      and files = "[''tests/foo.js'', ''src/tests.js'', ''.hidden.js'']" and ps = "[''src/tests.js'']"
      and resolve = "\<lambda>p. ''/proj/'' @ p" and ?s0.0 = "example_site ''/proj/tests/foo.js'' scenario"
      and hash = plain_hash and eng = mock_engine and g = initial and es = "[''tests'']"]
  note c3 = th[THEN conjunct2, THEN conjunct2, THEN conjunct1, rule_format, OF c s]
  note c12 = th[THEN conjunct2, THEN conjunct2, THEN conjunct2, THEN conjunct2, THEN conjunct2,
      THEN conjunct2, THEN conjunct2, THEN conjunct2, THEN conjunct2, THEN conjunct2, THEN conjunct2,
      rule_format, OF x]
  have a: "fst (assembleApplicationStyles ?m [''tests/foo.js'', ''src/tests.js'', ''.hidden.js'']
             (\<lambda>p. ''/proj/'' @ p) ?cfg) = map (\<lambda>p. ''/proj/'' @ p) [''src/tests.js'']"
    by (rule c3[THEN conjunct1])
  have b: "''tests/foo.js'' \<notin> set [''src/tests.js'']"
    by (rule c3[THEN conjunct2, THEN conjunct1, rule_format, OF m])
  have r: "calls (snd (run_plugin plain_hash (\<lambda>p. ''/proj/'' @ p) mock_engine ?cfg
        [example_site ''/proj/tests/foo.js'' scenario] initial)) = calls initial"
    "map (body_of (snd (run_plugin plain_hash (\<lambda>p. ''/proj/'' @ p) mock_engine ?cfg
        [example_site ''/proj/tests/foo.js'' scenario] initial)))
       (fst (run_plugin plain_hash (\<lambda>p. ''/proj/'' @ p) mock_engine ?cfg
        [example_site ''/proj/tests/foo.js'' scenario] initial))
      = [src_body (example_site ''/proj/tests/foo.js'' scenario)]"
    by (rule c12[THEN conjunct1], rule c12[THEN conjunct2, THEN conjunct2])
  have e: "expand_item (JStr ''tests'') = Inr (JStr ''tests/**'')"
    "expand_item (JStr ''src/legacy'') = Inr (JStr ''src/legacy'')"
    "expand_item (JStr ''a.js'') = Inr (JStr ''a.js'')"
    using th[where s = "''tests''", THEN conjunct1] th[where s = "''src/legacy''", THEN conjunct1]
      th[where s = "''a.js''", THEN conjunct1] by simp_all
  show ?thesis using s a b e r unfolding sb i by (simp del: run_plugin.simps)
qed

text \<open>
  C9 as it is stated fails for the plugin. With \<open>exclude = ["tests"]\<close> and the project at
  the root directory, \<open>path.resolve("tests")\<close> is \<open>/tests\<close>, which the path \<open>/src/tests.js\<close>
  contains: the call site of \<open>src/tests.js\<close> is skipped, its body stays as parsed and the
  engine is not called. In a project at \<open>/proj\<close> the file \<open>/proj/tests.js\<close>, which
  \<open>tests/**\<close> does not name, is skipped as well.
\<close>

theorem plugin_matches_by_substring:
  "excludePath (\<lambda>p. ''/'' @ p) (JArr [JStr ''tests'']) (Some ''/src/tests.js'') = Inr True
   \<and> calls (snd (run_plugin plain_hash (\<lambda>p. ''/'' @ p) mock_engine
        (JObj [(''exclude'', JArr [JStr ''tests'']), (''module'', JBool False)])
        [example_site ''/src/tests.js'' scenario] initial)) = []
   \<and> map (body_of (snd (run_plugin plain_hash (\<lambda>p. ''/'' @ p) mock_engine
        (JObj [(''exclude'', JArr [JStr ''tests'']), (''module'', JBool False)])
        [example_site ''/src/tests.js'' scenario] initial)))
       (fst (run_plugin plain_hash (\<lambda>p. ''/'' @ p) mock_engine
        (JObj [(''exclude'', JArr [JStr ''tests'']), (''module'', JBool False)])
        [example_site ''/src/tests.js'' scenario] initial)) = [Some scenario]
   \<and> excludePath (\<lambda>p. ''/proj/'' @ p) (JArr [JStr ''tests'']) (Some ''/proj/tests.js'') = Inr True
   \<and> expand_item (JStr ''tests'') = Inr (JStr ''tests/**'')"
proof -
  let ?cfg = "JObj [(''exclude'', JArr [JStr ''tests'']), (''module'', JBool False)]"
  have x: "excludePath (\<lambda>p. ''/'' @ p) (get ?cfg [Fld ''exclude''])
             (src_filename (example_site ''/src/tests.js'' scenario)) = Inr True"
    by (simp add: get_Cons excludePath_def example_site_def)
  have sb: "scenario \<noteq> JUndef" by (simp add: scenario_def mk_object_def)
  have "run_plugin plain_hash (\<lambda>p. ''/'' @ p) mock_engine ?cfg [example_site ''/src/tests.js'' scenario] initial
      = ([\<lparr>filename = Some ''/src/tests.js'', callee = mk_identifier ''craftingStyles'',
            callback = Some (FnArg (JStr ''ArrowFunctionExpression'') (Some 0))\<rparr>],
         initial\<lparr>heap := [scenario]\<rparr>)"
    using x sb by (simp add: parse_site_def CallExpression_def example_site_def initial_def)
  then show ?thesis
    by (simp add: excludePath_def body_of_def deref_def initial_def expand_item_string)
qed









end
